theory Spec2Isabelle
  imports Main "HOL-Library.Multiset"
begin

section \<open>Data model of \<^verbatim>\<open>src/signals/proxies.ts\<close>\<close>

text \<open>
  The module keeps four published signals (\<^verbatim>\<open>proxies\<close>, \<^verbatim>\<open>proxyProviders\<close>,
  \<^verbatim>\<open>latencyMap\<close>, \<^verbatim>\<open>proxyNodeMap\<close>) and rebuilds them from two remote fetches.
  The types \<^verbatim>\<open>Proxy\<close>, \<^verbatim>\<open>ProxyNode\<close> and \<^verbatim>\<open>ProxyProvider\<close> come from \<^verbatim>\<open>~/types\<close>; only the
  fields this module reads are kept. A field the code reads with \<^verbatim>\<open>?.\<close>, \<^verbatim>\<open>??\<close> or a
  truthiness test is an \<open>option\<close>: \<open>None\<close> is JavaScript's \<^verbatim>\<open>undefined\<close>.
  A delay is a \<^verbatim>\<open>number\<close> of milliseconds, modelled as \<open>int\<close>; it is falsy exactly
  when it is \<open>0\<close>.
\<close>

record Sample =
  time :: string
  delay :: int

text \<open>
  \<^verbatim>\<open>ProxyWithProvider | ProxyNodeWithProvider\<close>: one record for both, a node without
  members has \<open>all = None\<close>. \<open>extra\<close> is the dictionary from test URL to history,
  as an association list read with \<open>map_of\<close>.
\<close>

record Proxy =
  name :: string
  type :: string
  udp :: bool
  xudp :: bool
  tfo :: bool
  now :: "string option"
  all :: "string list option"
  history :: "Sample list option"
  extra :: "(string \<times> Sample list) list option"
  provider :: "string option"

text \<open>\<^verbatim>\<open>type ProxyInfo\<close> (lines 22-34). Its \<open>latency\<close> field holds the \<^verbatim>\<open>now\<close> pointer.\<close>

record ProxyInfo =
  name :: string
  udp :: bool
  tfo :: bool
  latencyTestHistory :: "Sample list option"
  latency :: "string option"
  xudp :: bool
  type :: string
  provider :: string

record ProxyProvider =
  name :: string
  vehicleType :: string
  proxies :: "Proxy list"

text \<open>
  The configuration signals imported from \<^verbatim>\<open>~/signals\<close> are parameters of the model:
  \<^verbatim>\<open>urlForLatencyTest()\<close>, \<^verbatim>\<open>latencyTestTimeoutDuration()\<close> and
  \<^verbatim>\<open>latencyQualityMap().NOT_CONNECTED\<close>.
\<close>

record Signals =
  urlForLatencyTest :: string
  latencyTestTimeoutDuration :: int
  NOT_CONNECTED :: int

datatype error = RemoteError string | TypeError

text \<open>
  The remote engine behind \<^verbatim>\<open>~/apis\<close>: what each call answers, \<open>Inl\<close> for a rejected
  promise. The two fetched mappings are plain objects as \<^verbatim>\<open>JSON.parse\<close> builds them:
  the association list holds their own properties in the order \<^verbatim>\<open>Object.values\<close>
  enumerates them, and their prototype is \<^verbatim>\<open>Object.prototype\<close>. The node name handed to
  the latency test is \<open>None\<close> when the caller passes \<^verbatim>\<open>undefined\<close>.
\<close>

record Engine =
  fetchProxyProvidersAPI :: "error + (string \<times> ProxyProvider) list"
  fetchProxiesAPI :: "error + (string \<times> Proxy) list"
  proxyLatencyTestAPI :: "string option \<Rightarrow> string \<Rightarrow> string \<Rightarrow> int \<Rightarrow> error + int"

datatype api_call =
    FetchProxyProvidersAPI
  | FetchProxiesAPI
  | ProxyLatencyTestAPI "string option" string string int

section \<open>Plain objects used as dictionaries\<close>

text \<open>
  The module keeps its dictionaries in plain objects and reads them with \<^verbatim>\<open>obj[key]\<close>
  and \<^verbatim>\<open>key in obj\<close>, which also see what the object inherits. A plain object inherits
  the methods of \<^verbatim>\<open>Object.prototype\<close>, listed here with the \<^verbatim>\<open>name\<close> of each function,
  and the accessor \<^verbatim>\<open>__proto__\<close>.
\<close>

definition objectPrototypeMethods :: "(string \<times> string) list" where
  "objectPrototypeMethods =
     [(''constructor'', ''Object''),
      (''hasOwnProperty'', ''hasOwnProperty''),
      (''isPrototypeOf'', ''isPrototypeOf''),
      (''propertyIsEnumerable'', ''propertyIsEnumerable''),
      (''toLocaleString'', ''toLocaleString''),
      (''toString'', ''toString''),
      (''valueOf'', ''valueOf''),
      (''__defineGetter__'', ''__defineGetter__''),
      (''__defineSetter__'', ''__defineSetter__''),
      (''__lookupGetter__'', ''__lookupGetter__''),
      (''__lookupSetter__'', ''__lookupSetter__'')]"

text \<open>\<^verbatim>\<open>key in obj\<close> for a plain object with the own keys \<open>keys\<close>.\<close>

definition inObject :: "string list \<Rightarrow> string \<Rightarrow> bool" where
  "inObject keys k =
     (k \<in> set keys \<or> k = ''__proto__'' \<or> k \<in> set (map fst objectPrototypeMethods))"

text \<open>
  The object behind \<^verbatim>\<open>proxyNodeMap\<close>: its own properties, and its prototype when an
  assignment to \<^verbatim>\<open>__proto__\<close> has replaced \<^verbatim>\<open>Object.prototype\<close> by a node record
  (\<open>None\<close>: still \<^verbatim>\<open>Object.prototype\<close>).
\<close>

record NodeIndex =
  own :: "string \<rightharpoonup> ProxyInfo"
  proto :: "ProxyInfo option"

text \<open>
  What \<^verbatim>\<open>proxyNodeMap()[key]\<close> can give: a node record, a function inherited from
  \<^verbatim>\<open>Object.prototype\<close> (with its \<^verbatim>\<open>name\<close>), or any other value (\<^verbatim>\<open>undefined\<close>, a string,
  a boolean, an array, \<^verbatim>\<open>Object.prototype\<close> itself), of which the code only uses the
  truthiness: such a value has neither a \<^verbatim>\<open>latency\<close> nor a \<^verbatim>\<open>name\<close>.
\<close>

datatype looked = Info ProxyInfo | Builtin string | Other bool

fun truthy :: "looked \<Rightarrow> bool" where
  "truthy (Info node) = True"
| "truthy (Builtin f) = True"
| "truthy (Other b) = b"

text \<open>\<^verbatim>\<open>node.latency\<close> and \<^verbatim>\<open>node.name\<close>, \<open>None\<close> for \<^verbatim>\<open>undefined\<close>.\<close>

fun latencyOf :: "looked \<Rightarrow> string option" where
  "latencyOf (Info node) = latency node"
| "latencyOf (Builtin f) = None"
| "latencyOf (Other b) = None"

fun nameOf :: "looked \<Rightarrow> string option" where
  "nameOf (Info node) = Some (ProxyInfo.name node)"
| "nameOf (Builtin f) = Some f"
| "nameOf (Other b) = None"

text \<open>
  The truthiness of a property of a node record that serves as prototype: the eight
  properties of the object literal of lines 98-107; \<open>None\<close> for any other key.
\<close>

definition fieldTruthy :: "ProxyInfo \<Rightarrow> string \<Rightarrow> bool option" where
  "fieldTruthy p k =
     (if k = ''udp'' then Some (ProxyInfo.udp p)
      else if k = ''xudp'' then Some (ProxyInfo.xudp p)
      else if k = ''type'' then Some (ProxyInfo.type p \<noteq> [])
      else if k = ''latency'' then Some (case latency p of None \<Rightarrow> False | Some l \<Rightarrow> l \<noteq> [])
      else if k = ''latencyTestHistory'' then Some (latencyTestHistory p \<noteq> None)
      else if k = ''name'' then Some (ProxyInfo.name p \<noteq> [])
      else if k = ''tfo'' then Some (ProxyInfo.tfo p)
      else if k = ''provider'' then Some (ProxyInfo.provider p \<noteq> [])
      else None)"

text \<open>
  A key looked up on \<^verbatim>\<open>Object.prototype\<close>; \<open>self\<close> is the prototype of the object the
  lookup started from, which the accessor \<^verbatim>\<open>__proto__\<close> returns.
\<close>

definition objectPrototypeGet :: "looked \<Rightarrow> string \<Rightarrow> looked" where
  "objectPrototypeGet self k =
     (if k = ''__proto__'' then self
      else (case map_of objectPrototypeMethods k of
              Some f \<Rightarrow> Builtin f
            | None \<Rightarrow> Other False))"

text \<open>\<^verbatim>\<open>proxyNodeMap()[key]\<close>: own properties first, then the prototype chain.\<close>

definition indexGet :: "NodeIndex \<Rightarrow> string \<Rightarrow> looked" where
  "indexGet idx k =
     (case own idx k of
        Some node \<Rightarrow> Info node
      | None \<Rightarrow>
          (case proto idx of
             None \<Rightarrow> objectPrototypeGet (Other True) k
           | Some p \<Rightarrow>
               (case fieldTruthy p k of
                  Some b \<Rightarrow> Other b
                | None \<Rightarrow> objectPrototypeGet (Info p) k)))"

text \<open>
  \<^verbatim>\<open>newProxyNodeMap[key] = node\<close> (line 98): an own property is written, except that
  the key \<^verbatim>\<open>__proto__\<close>, when it is no own property yet, reaches the inherited setter,
  which makes the node record the prototype.
\<close>

definition assignIndex :: "NodeIndex \<Rightarrow> string \<Rightarrow> ProxyInfo \<Rightarrow> NodeIndex" where
  "assignIndex idx k node =
     (if k = ''__proto__'' \<and> own idx k = None then idx\<lparr> proto := Some node \<rparr>
      else idx\<lparr> own := (own idx)(k \<mapsto> node) \<rparr>)"

text \<open>
  \<^verbatim>\<open>newLatencyMap[key] = delay\<close> (line 109): the same, but the inherited setter ignores
  a number, so nothing is written. The latency map is given by its own properties.
\<close>

definition assignLatency :: "(string \<rightharpoonup> int) \<Rightarrow> string \<Rightarrow> int \<Rightarrow> (string \<rightharpoonup> int)" where
  "assignLatency lm k d = (if k = ''__proto__'' \<and> lm k = None then lm else lm(k \<mapsto> d))"


text \<open>
  The global signals of the module (lines 39-65). The maps of latencies and of running
  tests are given by their own properties.
\<close>

record Store =
  proxies :: "Proxy list"
  proxyProviders :: "ProxyProvider list"
  latencyMap :: "string \<rightharpoonup> int"
  proxyNodeMap :: NodeIndex
  proxyLatencyTestingMap :: "string \<rightharpoonup> bool"

section \<open>Latency derivation\<close>

text \<open>\<^verbatim>\<open>xs.at(-1)\<close>: the last element, \<^verbatim>\<open>undefined\<close> on an empty array.\<close>

definition at_last :: "'a list \<Rightarrow> 'a option" where
  "at_last xs = (case xs of [] \<Rightarrow> None | _ # _ \<Rightarrow> Some (last xs))"

text \<open>
  \<^verbatim>\<open>proxy.extra?.[url]\<close>, as far as line 74 uses it: what \<^verbatim>\<open>extra\<close> only inherits is
  no array and counts as absent.
\<close>

definition extra_at :: "Proxy \<Rightarrow> string \<Rightarrow> Sample list option" where
  "extra_at proxy url = (case extra proxy of None \<Rightarrow> None | Some e \<Rightarrow> map_of e url)"

text \<open>
  \<^verbatim>\<open>getLatencyFromProxy\<close> (lines 67-87). The first \<open>case\<close> is the
  \<^verbatim>\<open>Array.isArray(extra)\<close> block with its \<^verbatim>\<open>if (delay) return delay\<close>; the last line is
  \<^verbatim>\<open>proxy.history?.at(-1)?.delay ?? NOT_CONNECTED\<close>, which keeps a delay of \<open>0\<close>.
\<close>

definition getLatencyFromProxy :: "Signals \<Rightarrow> Proxy \<Rightarrow> string \<Rightarrow> bool \<Rightarrow> int" where
  "getLatencyFromProxy sg proxy url fallbackDefault =
     (case (case extra_at proxy url of
              None \<Rightarrow> None
            | Some arr \<Rightarrow>
                (case at_last arr of
                   None \<Rightarrow> None
                 | Some smp \<Rightarrow> if delay smp \<noteq> 0 then Some (delay smp) else None)) of
        Some d \<Rightarrow> d
      | None \<Rightarrow>
          if \<not> fallbackDefault then NOT_CONNECTED sg
          else (case history proxy of
                  None \<Rightarrow> NOT_CONNECTED sg
                | Some h \<Rightarrow>
                    (case at_last h of
                       None \<Rightarrow> NOT_CONNECTED sg
                     | Some smp \<Rightarrow> delay smp)))"

section \<open>Node projection\<close>

text \<open>The object literal of lines 98-107; \<^verbatim>\<open>provider = ''\<close> is the destructuring default.\<close>

definition toProxyInfo :: "Proxy \<Rightarrow> ProxyInfo" where
  "toProxyInfo proxy =
     \<lparr> ProxyInfo.name = Proxy.name proxy,
       ProxyInfo.udp = Proxy.udp proxy,
       ProxyInfo.tfo = Proxy.tfo proxy,
       latencyTestHistory = history proxy,
       latency = now proxy,
       ProxyInfo.xudp = Proxy.xudp proxy,
       ProxyInfo.type = Proxy.type proxy,
       ProxyInfo.provider = (case Proxy.provider proxy of None \<Rightarrow> [] | Some pv \<Rightarrow> pv) \<rparr>"

text \<open>
  \<^verbatim>\<open>setProxiesInfo\<close> (lines 89-116): both maps start as copies of the current ones
  (\<^verbatim>\<open>{ ...proxyNodeMap() }\<close>, \<^verbatim>\<open>{ ...latencyMap() }\<close>: the own properties, on a fresh
  object whose prototype is \<^verbatim>\<open>Object.prototype\<close>), the \<^verbatim>\<open>forEach\<close> assigns to each under
  the node's name, in list order, and the batch publishes both.
\<close>

definition setProxiesInfo :: "Signals \<Rightarrow> Proxy list \<Rightarrow> Store \<Rightarrow> Store" where
  "setProxiesInfo sg ps s =
     (let (newProxyNodeMap, newLatencyMap) =
            fold (\<lambda>proxy (nm, lm).
                    (assignIndex nm (Proxy.name proxy) (toProxyInfo proxy),
                     assignLatency lm (Proxy.name proxy)
                       (getLatencyFromProxy sg proxy (urlForLatencyTest sg) True)))
                 ps (\<lparr> own = own (proxyNodeMap s), proto = None \<rparr>, latencyMap s)
      in s\<lparr> proxyNodeMap := newProxyNodeMap, latencyMap := newLatencyMap \<rparr>)"

section \<open>Refresh\<close>

text \<open>\<^verbatim>\<open>xs.indexOf(x)\<close>: the first position of \<open>x\<close>, \<open>-1\<close> when absent.\<close>

fun indexOf :: "'a list \<Rightarrow> 'a \<Rightarrow> int" where
  "indexOf [] x = -1"
| "indexOf (y # ys) x =
     (if y = x then 0 else (let i = indexOf ys x in if i < 0 then -1 else i + 1))"

text \<open>
  \<^verbatim>\<open>Array.prototype.sort(compare)\<close>: a stable sort (ECMAScript 2019), modelled as
  insertion from the right, each element placed before the first one it does not
  compare greater than.
\<close>

fun insort_cmp :: "('a \<Rightarrow> 'a \<Rightarrow> int) \<Rightarrow> 'a \<Rightarrow> 'a list \<Rightarrow> 'a list" where
  "insort_cmp cmp x [] = [x]"
| "insort_cmp cmp x (y # ys) =
     (if cmp x y \<le> 0 then x # y # ys else y # insort_cmp cmp x ys)"

definition array_sort :: "('a \<Rightarrow> 'a \<Rightarrow> int) \<Rightarrow> 'a list \<Rightarrow> 'a list" where
  "array_sort cmp xs = foldr (insort_cmp cmp) xs []"

text \<open>Line 125: \<^verbatim>\<open>[...(proxies['GLOBAL'].all ?? []), 'GLOBAL']\<close>.\<close>

definition sortIndex :: "Proxy \<Rightarrow> string list" where
  "sortIndex global = (case all global of None \<Rightarrow> [] | Some members \<Rightarrow> members) @ [''GLOBAL'']"

text \<open>\<^verbatim>\<open>proxy.all?.length\<close> as a filter predicate.\<close>

definition hasMembers :: "Proxy \<Rightarrow> bool" where
  "hasMembers proxy = (case all proxy of None \<Rightarrow> False | Some members \<Rightarrow> members \<noteq> [])"

text \<open>Lines 126-131.\<close>

definition sortedProxies :: "(string \<times> Proxy) list \<Rightarrow> string list \<Rightarrow> Proxy list" where
  "sortedProxies pxs sidx =
     array_sort
       (\<lambda>prev next. indexOf sidx (Proxy.name prev) - indexOf sidx (Proxy.name next))
       (filter hasMembers (map snd pxs))"

text \<open>Lines 132-135.\<close>

definition sortedProviders :: "(string \<times> ProxyProvider) list \<Rightarrow> ProxyProvider list" where
  "sortedProviders pvs =
     filter (\<lambda>pv. ProxyProvider.name pv \<noteq> ''default'' \<and> vehicleType pv \<noteq> ''Compatible'')
       (map snd pvs)"

text \<open>
  Lines 139-146: the nodes one provider contributes, those whose name is not
  \<^verbatim>\<open>in proxies\<close>, tagged with the provider's name.
\<close>

definition providerNodes :: "(string \<times> Proxy) list \<Rightarrow> ProxyProvider \<Rightarrow> Proxy list" where
  "providerNodes pxs pv =
     map (\<lambda>proxy. proxy\<lparr> Proxy.provider := Some (ProxyProvider.name pv) \<rparr>)
       (filter (\<lambda>proxy. \<not> inObject (map fst pxs) (Proxy.name proxy)) (ProxyProvider.proxies pv))"

text \<open>Lines 137-147.\<close>

definition allProxies :: "(string \<times> Proxy) list \<Rightarrow> ProxyProvider list \<Rightarrow> Proxy list" where
  "allProxies pxs spvs = map snd pxs @ concat (map (providerNodes pxs) spvs)"

text \<open>
  \<^verbatim>\<open>fetchProxies\<close> (lines 119-154). The result is the list of remote calls issued,
  the outcome of the promise and the store afterwards. \<^verbatim>\<open>Promise.all\<close> issues both
  calls and rejects when either does; which error it carries when both reject depends
  on which settles first, the model takes the providers' one. Reading \<^verbatim>\<open>.all\<close> of a
  missing \<^verbatim>\<open>GLOBAL\<close> entry throws a \<^verbatim>\<open>TypeError\<close> before anything is published.
\<close>

definition fetchProxies :: "Signals \<Rightarrow> Engine \<Rightarrow> Store \<Rightarrow> api_call list \<times> (error + unit) \<times> Store" where
  "fetchProxies sg eng s =
     ([FetchProxyProvidersAPI, FetchProxiesAPI],
      (case fetchProxyProvidersAPI eng of
         Inl e \<Rightarrow> (Inl e, s)
       | Inr pvs \<Rightarrow>
           (case fetchProxiesAPI eng of
              Inl e \<Rightarrow> (Inl e, s)
            | Inr pxs \<Rightarrow>
                (case map_of pxs ''GLOBAL'' of
                   None \<Rightarrow> (Inl TypeError, s)
                 | Some global \<Rightarrow>
                     (Inr (),
                      setProxiesInfo sg (allProxies pxs (sortedProviders pvs))
                        (s\<lparr> Store.proxies := sortedProxies pxs (sortIndex global),
                            proxyProviders := sortedProviders pvs \<rparr>))))))"

section \<open>Chain resolution\<close>

text \<open>
  The \<^verbatim>\<open>while\<close> loop of \<^verbatim>\<open>getNowProxyNodeName\<close> (lines 253-263), on whatever value
  the lookup gave. It has no bound, so it is a partial function: \<open>None\<close> is a loop
  that never returns, \<open>Some None\<close> the result \<^verbatim>\<open>undefined\<close>.
\<close>

partial_function (option) nowLoop :: "NodeIndex \<Rightarrow> looked \<Rightarrow> string option option" where
  "nowLoop idx node =
     (case latencyOf node of
        None \<Rightarrow> Some (nameOf node)
      | Some ptr \<Rightarrow>
          if ptr \<noteq> [] \<and> Some ptr \<noteq> nameOf node
          then (if \<not> truthy (indexGet idx ptr) then Some (nameOf node)
                else nowLoop idx (indexGet idx ptr))
          else Some (nameOf node))"

text \<open>\<^verbatim>\<open>getNowProxyNodeName\<close> (lines 246-264).\<close>

definition getNowProxyNodeName :: "NodeIndex \<Rightarrow> string \<Rightarrow> string option option" where
  "getNowProxyNodeName idx nm =
     (if nm = [] \<or> \<not> truthy (indexGet idx nm) then Some (Some nm)
      else nowLoop idx (indexGet idx nm))"

section \<open>Node latency test\<close>



section \<open>Predicates used to state the properties\<close>

text \<open>
  A node has a measurement for a test URL when \<^verbatim>\<open>extra[url]\<close> is a non-empty
  sequence whose last delay is truthy. Delays are non-negative milliseconds, so truthy
  (non-zero) and positive are the same thing for them.
\<close>

definition hasMeasurement :: "Proxy \<Rightarrow> string \<Rightarrow> bool" where
  "hasMeasurement node url =
     (case extra_at node url of
        None \<Rightarrow> False
      | Some samples \<Rightarrow> samples \<noteq> [] \<and> delay (last samples) \<noteq> 0)"

text \<open>
  The edges of the selection-pointer graph, on node names: \<open>nowEdge m k ptr\<close> when
  the loop, standing on the node record found under \<open>k\<close>, moves on to the node record
  found under \<open>ptr\<close>. An empty pointer, a pointer equal to the node's own name and a
  pointer under which the index holds no node record are no edges: there the loop
  returns, at once or after one more round.
\<close>

definition nowEdge :: "NodeIndex \<Rightarrow> string \<Rightarrow> string \<Rightarrow> bool" where
  "nowEdge m k ptr =
     (case indexGet m k of
        Info node \<Rightarrow>
          latency node = Some ptr \<and> ptr \<noteq> [] \<and> ptr \<noteq> ProxyInfo.name node
          \<and> (case indexGet m ptr of Info nextNode \<Rightarrow> True | _ \<Rightarrow> False)
      | _ \<Rightarrow> False)"


text \<open>The copy of a provider's node that line 142-145 builds.\<close>

definition tagged :: "ProxyProvider \<Rightarrow> Proxy \<Rightarrow> Proxy" where
  "tagged pv proxy = proxy\<lparr> Proxy.provider := Some (ProxyProvider.name pv) \<rparr>"

section \<open>Concrete snapshots\<close>

text \<open>Inputs at which the properties below are evaluated.\<close>

definition sampleSignals :: Signals where
  "sampleSignals = \<lparr> urlForLatencyTest = ''http://u'', latencyTestTimeoutDuration = 5000, NOT_CONNECTED = 0 \<rparr>"

definition sampleNode :: "int \<Rightarrow> Sample list option \<Rightarrow> Proxy" where
  "sampleNode d h =
     \<lparr> Proxy.name = ''n'', Proxy.type = ''Shadowsocks'', Proxy.udp = True, Proxy.xudp = False,
       Proxy.tfo = False, now = None, all = None, history = h,
       extra = Some [(''http://u'', [\<lparr> time = ''t0'', delay = 9 \<rparr>, \<lparr> time = ''t1'', delay = d \<rparr>])],
       Proxy.provider = None \<rparr>"

definition nodeInfo :: "string \<Rightarrow> string option \<Rightarrow> ProxyInfo" where
  "nodeInfo nm ptr =
     \<lparr> ProxyInfo.name = nm, ProxyInfo.udp = False, ProxyInfo.tfo = False,
       latencyTestHistory = None, latency = ptr, ProxyInfo.xudp = False,
       ProxyInfo.type = ''Selector'', ProxyInfo.provider = [] \<rparr>"

definition sampleIndex :: NodeIndex where
  "sampleIndex =
     \<lparr> own = [''GLOBAL'' \<mapsto> nodeInfo ''GLOBAL'' (Some ''Pick''),
              ''Pick'' \<mapsto> nodeInfo ''Pick'' (Some ''Dangling''),
              ''Dangling'' \<mapsto> nodeInfo ''Dangling'' (Some ''gone''),
              ''Auto'' \<mapsto> nodeInfo ''Auto'' (Some ''Auto''),
              ''Leaf'' \<mapsto> nodeInfo ''Leaf'' None],
       proto = None \<rparr>"

definition cyclicIndex :: NodeIndex where
  "cyclicIndex =
     \<lparr> own = [''A'' \<mapsto> nodeInfo ''A'' (Some ''B''), ''B'' \<mapsto> nodeInfo ''B'' (Some ''A'')],
       proto = None \<rparr>"

definition emptyIndex :: NodeIndex where
  "emptyIndex = \<lparr> own = Map.empty, proto = None \<rparr>"

definition sampleRank :: "string \<Rightarrow> nat" where
  "sampleRank k = (if k = ''GLOBAL'' then 2 else if k = ''Pick'' then 1 else 0)"

definition mkProxy :: "string \<Rightarrow> string list option \<Rightarrow> string option \<Rightarrow> int list \<Rightarrow> Proxy" where
  "mkProxy nm members ptr delays =
     \<lparr> Proxy.name = nm, Proxy.type = ''Selector'', Proxy.udp = False, Proxy.xudp = False,
       Proxy.tfo = False, now = ptr, all = members,
       history = Some (map (\<lambda>d. \<lparr> time = ''t'', delay = d \<rparr>) delays),
       extra = None, Proxy.provider = None \<rparr>"

definition globalGroup :: Proxy where
  "globalGroup = mkProxy ''GLOBAL'' (Some [''A'', ''B'']) (Some ''A'') []"

definition zGroup :: Proxy where
  "zGroup = mkProxy ''Z'' (Some [''n1'']) (Some ''n1'') []"

definition orderProxies :: "(string \<times> Proxy) list" where
  "orderProxies =
     [(''GLOBAL'', globalGroup),
      (''Z'', zGroup),
      (''B'', mkProxy ''B'' (Some [''n1'']) (Some ''n1'') []),
      (''Y'', mkProxy ''Y'' (Some [''n1'']) (Some ''n1'') []),
      (''A'', mkProxy ''A'' (Some [''n1'']) (Some ''n1'') []),
      (''n1'', mkProxy ''n1'' None None [35])]"

definition orderEngine :: Engine where
  "orderEngine =
     \<lparr> fetchProxyProvidersAPI = Inr [], fetchProxiesAPI = Inr orderProxies,
       proxyLatencyTestAPI = (\<lambda>node pv url timeout. Inr 42) \<rparr>"

definition emptyStore :: Store where
  "emptyStore =
     \<lparr> Store.proxies = [], proxyProviders = [], latencyMap = Map.empty,
       proxyNodeMap = emptyIndex, proxyLatencyTestingMap = Map.empty \<rparr>"

definition prevStore :: Store where
  "prevStore =
     \<lparr> Store.proxies = [], proxyProviders = [], latencyMap = [''old'' \<mapsto> 120],
       proxyNodeMap = \<lparr> own = [''old'' \<mapsto> nodeInfo ''old'' None], proto = None \<rparr>,
       proxyLatencyTestingMap = Map.empty \<rparr>"

definition failingEngine :: Engine where
  "failingEngine =
     \<lparr> fetchProxyProvidersAPI = Inl (RemoteError ''503''), fetchProxiesAPI = Inr orderProxies,
       proxyLatencyTestAPI = (\<lambda>node pv url timeout. Inl (RemoteError ''timeout'')) \<rparr>"

definition topX :: Proxy where
  "topX = mkProxy ''X'' None None [10]"

definition mergeProxies :: "(string \<times> Proxy) list" where
  "mergeProxies = [(''GLOBAL'', mkProxy ''GLOBAL'' (Some [''X'']) (Some ''X'') []), (''X'', topX)]"

definition providerDefault :: ProxyProvider where
  "providerDefault =
     \<lparr> ProxyProvider.name = ''default'', vehicleType = ''Compatible'',
       ProxyProvider.proxies = [mkProxy ''X'' None None [99]] \<rparr>"

definition providerP1 :: ProxyProvider where
  "providerP1 =
     \<lparr> ProxyProvider.name = ''P1'', vehicleType = ''HTTP'',
       ProxyProvider.proxies = [mkProxy ''X'' None None [50], mkProxy ''Y'' None None [20]] \<rparr>"

definition providerP2 :: ProxyProvider where
  "providerP2 =
     \<lparr> ProxyProvider.name = ''P2'', vehicleType = ''HTTP'',
       ProxyProvider.proxies = [mkProxy ''Y'' None None [30]] \<rparr>"

definition mergeProviders :: "(string \<times> ProxyProvider) list" where
  "mergeProviders = [(''default'', providerDefault), (''P1'', providerP1), (''P2'', providerP2)]"

definition mergeEngine :: Engine where
  "mergeEngine =
     \<lparr> fetchProxyProvidersAPI = Inr mergeProviders, fetchProxiesAPI = Inr mergeProxies,
       proxyLatencyTestAPI = (\<lambda>node pv url timeout. Inr 42) \<rparr>"


text \<open>\<^verbatim>\<open>GLOBAL\<close> lists itself among its members.\<close>

definition selfListProxies :: "(string \<times> Proxy) list" where
  "selfListProxies =
     [(''GLOBAL'', mkProxy ''GLOBAL'' (Some [''B'', ''GLOBAL'', ''A'']) (Some ''B'') []),
      (''A'', mkProxy ''A'' (Some [''n1'']) (Some ''n1'') []),
      (''B'', mkProxy ''B'' (Some [''n1'']) (Some ''n1'') [])]"

definition selfListEngine :: Engine where
  "selfListEngine =
     \<lparr> fetchProxyProvidersAPI = Inr [], fetchProxiesAPI = Inr selfListProxies,
       proxyLatencyTestAPI = (\<lambda>node pv url timeout. Inr 42) \<rparr>"



text \<open>Two providers that both supply a node named \<^verbatim>\<open>toString\<close>.\<close>

definition providerQ1 :: ProxyProvider where
  "providerQ1 =
     \<lparr> ProxyProvider.name = ''Q1'', vehicleType = ''HTTP'',
       ProxyProvider.proxies = [mkProxy ''toString'' None None [20]] \<rparr>"

definition providerQ2 :: ProxyProvider where
  "providerQ2 =
     \<lparr> ProxyProvider.name = ''Q2'', vehicleType = ''HTTP'',
       ProxyProvider.proxies = [mkProxy ''toString'' None None [30]] \<rparr>"

definition builtinProviders :: "(string \<times> ProxyProvider) list" where
  "builtinProviders = [(''Q1'', providerQ1), (''Q2'', providerQ2)]"

definition builtinEngine :: Engine where
  "builtinEngine =
     \<lparr> fetchProxyProvidersAPI = Inr builtinProviders,
       fetchProxiesAPI = Inr mergeProxies,
       proxyLatencyTestAPI = (\<lambda>node pv url timeout. Inr 42) \<rparr>"

text \<open>A fetched proxy named \<^verbatim>\<open>__proto__\<close>.\<close>

definition protoProxies :: "(string \<times> Proxy) list" where
  "protoProxies =
     [(''GLOBAL'', mkProxy ''GLOBAL'' (Some [''__proto__'']) (Some ''__proto__'') []),
      (''__proto__'', mkProxy ''__proto__'' None None [35])]"

definition protoEngine :: Engine where
  "protoEngine =
     \<lparr> fetchProxyProvidersAPI = Inr [], fetchProxiesAPI = Inr protoProxies,
       proxyLatencyTestAPI = (\<lambda>node pv url timeout. Inr 42) \<rparr>"

text \<open>A node whose pointer is the name of an inherited function.\<close>

definition builtinPointerIndex :: NodeIndex where
  "builtinPointerIndex =
     \<lparr> own = [''G'' \<mapsto> nodeInfo ''G'' (Some ''constructor'')], proto = None \<rparr>"

section \<open>Latency derivation: properties\<close>

lemma at_last_eq: "at_last xs = (if xs = [] then None else Some (last xs))"
  by (cases xs) (simp_all add: at_last_def)

text \<open>
  C1. Latency derivation follows the case analysis of section 4.2: when \<^verbatim>\<open>extra[url]\<close> is
  a non-empty sequence whose last delay is truthy, that delay is returned, whatever
  \<^verbatim>\<open>history\<close> holds and whatever the fallback flag says; otherwise the result is
  \<^verbatim>\<open>NOT_CONNECTED\<close> when the fallback flag is false, and else the last delay of
  \<^verbatim>\<open>history\<close>, or \<^verbatim>\<open>NOT_CONNECTED\<close> when \<^verbatim>\<open>history\<close> is empty or absent. A last
  delay of zero in \<^verbatim>\<open>extra[url]\<close> is no measurement: \<open>hasMeasurement\<close> is then false.
\<close>

theorem getLatencyFromProxy_cases:
  "(\<forall>samples. extra_at node url = Some samples \<and> samples \<noteq> [] \<and> delay (last samples) \<noteq> 0
      \<longrightarrow> getLatencyFromProxy sg node url fb = delay (last samples))
   \<and> (\<not> hasMeasurement node url \<and> \<not> fb
      \<longrightarrow> getLatencyFromProxy sg node url fb = NOT_CONNECTED sg)
   \<and> (\<forall>h. \<not> hasMeasurement node url \<and> fb \<and> history node = Some h \<and> h \<noteq> []
      \<longrightarrow> getLatencyFromProxy sg node url fb = delay (last h))
   \<and> (\<not> hasMeasurement node url \<and> fb \<and> (history node = None \<or> history node = Some [])
      \<longrightarrow> getLatencyFromProxy sg node url fb = NOT_CONNECTED sg)"
  by (auto simp: getLatencyFromProxy_def hasMeasurement_def at_last_eq split: option.splits)

text \<open>A last delay of 42 is returned; a last delay of 0 falls through to the fallback.\<close>

theorem getLatencyFromProxy_cases_witness:
  "getLatencyFromProxy sampleSignals (sampleNode 42 (Some [\<lparr> time = ''t'', delay = 7 \<rparr>])) ''http://u'' True = 42
   \<and> \<not> hasMeasurement (sampleNode 0 (Some [\<lparr> time = ''t'', delay = 7 \<rparr>])) ''http://u''
   \<and> getLatencyFromProxy sampleSignals (sampleNode 0 (Some [\<lparr> time = ''t'', delay = 7 \<rparr>])) ''http://u'' False = 0
   \<and> getLatencyFromProxy sampleSignals (sampleNode 0 (Some [\<lparr> time = ''t'', delay = 7 \<rparr>])) ''http://u'' True = 7
   \<and> getLatencyFromProxy sampleSignals (sampleNode 0 None) ''http://u'' True = 0"
  using getLatencyFromProxy_cases [of "sampleNode 42 (Some [\<lparr> time = ''t'', delay = 7 \<rparr>])" "''http://u''" sampleSignals True]
    getLatencyFromProxy_cases [of "sampleNode 0 (Some [\<lparr> time = ''t'', delay = 7 \<rparr>])" "''http://u''" sampleSignals False]
    getLatencyFromProxy_cases [of "sampleNode 0 (Some [\<lparr> time = ''t'', delay = 7 \<rparr>])" "''http://u''" sampleSignals True]
    getLatencyFromProxy_cases [of "sampleNode 0 None" "''http://u''" sampleSignals True]
  by (simp add: hasMeasurement_def extra_at_def sampleNode_def sampleSignals_def)

section \<open>Chain resolution: properties\<close>

lemma indexGet_own: "own m k = Some node \<Longrightarrow> indexGet m k = Info node"
  by (simp add: indexGet_def)

lemma objectPrototypeGet_Info:
  "objectPrototypeGet self k = Info node \<Longrightarrow> k = ''__proto__'' \<and> self = Info node"
  by (auto simp: objectPrototypeGet_def split: if_splits option.splits)

lemma indexGet_Info:
  assumes "indexGet m k = Info node"
  shows "own m k = Some node \<or> (k = ''__proto__'' \<and> own m k = None \<and> proto m = Some node)"
proof (cases "own m k")
  case (Some n)
  with assms show ?thesis by (simp add: indexGet_def)
next
  case None
  show ?thesis
  proof (cases "proto m")
    case pn: None
    with None assms have "objectPrototypeGet (Other True) k = Info node"
      by (simp add: indexGet_def)
    from objectPrototypeGet_Info [OF this] show ?thesis by simp
  next
    case (Some p)
    with None assms have "objectPrototypeGet (Info p) k = Info node"
      by (simp add: indexGet_def split: option.splits)
    from objectPrototypeGet_Info [OF this] None Some show ?thesis by simp
  qed
qed

lemma indexGet_absent:
  assumes "own m k = None" "proto m = None" "\<not> inObject [] k"
  shows "indexGet m k = Other False"
proof -
  from assms(3) have "k \<noteq> ''__proto__''" and "k \<notin> set (map fst objectPrototypeMethods)"
    by (simp_all add: inObject_def)
  then have "k \<noteq> ''__proto__''" and "map_of objectPrototypeMethods k = None"
    by (simp_all add: map_of_eq_None_iff)
  then have "objectPrototypeGet (Other True) k = Other False"
    by (simp add: objectPrototypeGet_def)
  with assms(1,2) show ?thesis by (simp add: indexGet_def)
qed

lemma nowLoop_nonnode:
  "nowLoop m (Builtin f) = Some (Some f)" "nowLoop m (Other b) = Some None"
  by (subst nowLoop.simps, simp)+

lemma nowEdge_at:
  "indexGet m k = Info node \<Longrightarrow>
   nowEdge m k ptr =
     (latency node = Some ptr \<and> ptr \<noteq> [] \<and> ptr \<noteq> ProxyInfo.name node
      \<and> (\<exists>nextNode. indexGet m ptr = Info nextNode))"
  by (auto simp: nowEdge_def split: looked.splits)

lemma nowEdge_source: "nowEdge m k ptr \<Longrightarrow> \<exists>node. indexGet m k = Info node"
  by (auto simp: nowEdge_def split: looked.splits)

lemma nowEdge_target: "nowEdge m k ptr \<Longrightarrow> \<exists>node. indexGet m ptr = Info node"
  by (auto simp: nowEdge_def split: looked.splits)

lemma nowLoop_step:
  assumes "nowEdge m k ptr" "indexGet m k = Info node" "indexGet m ptr = Info nextNode"
  shows "nowLoop m (Info node) = nowLoop m (Info nextNode)"
  using assms by (subst nowLoop.simps) (simp add: nowEdge_at)

lemma nowLoop_exit:
  assumes "latency node = None \<or> latency node = Some [] \<or> latency node = Some (ProxyInfo.name node)
           \<or> (\<exists>ptr. latency node = Some ptr \<and> \<not> truthy (indexGet m ptr))"
  shows "nowLoop m (Info node) = Some (Some (ProxyInfo.name node))"
  using assms by (subst nowLoop.simps) (auto split: option.splits)



lemma getNowProxyNodeName_absent:
  assumes "own m nm = None" "proto m = None" "\<not> inObject [] nm"
  shows "getNowProxyNodeName m nm = Some (Some nm)"
  using indexGet_absent [OF assms] by (simp add: getNowProxyNodeName_def)

lemma nowLoop_returns_wf:
  assumes wf: "wfP (\<lambda>ptr k. nowEdge m k ptr)"
  shows "indexGet m k = Info node \<Longrightarrow> \<exists>y. nowLoop m (Info node) = Some y"
  using wf
proof (induction k arbitrary: node rule: wfp_induct_rule)
  case (less k)
  show ?case
  proof (cases "\<exists>ptr. nowEdge m k ptr")
    case True
    then obtain ptr where e: "nowEdge m k ptr" ..
    from nowEdge_target [OF e] obtain nextNode where n: "indexGet m ptr = Info nextNode" ..
    have "nowLoop m (Info node) = nowLoop m (Info nextNode)"
      using nowLoop_step [OF e less.prems n] .
    with less.IH [OF e n] show ?thesis by simp
  next
    case False
    show ?thesis
    proof (cases "latency node")
      case None
      then show ?thesis using nowLoop_exit [of node m] by simp
    next
      case (Some ptr)
      show ?thesis
      proof (cases "ptr \<noteq> [] \<and> ptr \<noteq> ProxyInfo.name node")
        case stay: False
        with Some show ?thesis using nowLoop_exit [of node m] by auto
      next
        case move: True
        with False Some less.prems have noinfo: "\<And>n. indexGet m ptr \<noteq> Info n"
          by (auto simp: nowEdge_at)
        have unfold: "nowLoop m (Info node) =
            (if \<not> truthy (indexGet m ptr) then Some (Some (ProxyInfo.name node))
             else nowLoop m (indexGet m ptr))"
          using Some move by (subst nowLoop.simps) simp
        show ?thesis
        proof (cases "indexGet m ptr")
          case (Info n)
          with noinfo [of n] show ?thesis by simp
        next
          case (Builtin f)
          with unfold show ?thesis by (simp add: nowLoop_nonnode)
        next
          case (Other b)
          with unfold show ?thesis by (simp add: nowLoop_nonnode)
        qed
      qed
    qed
  qed
qed

lemma nowEdge_wf:
  assumes fin: "finite (dom (own m))" and acyc: "\<And>k. \<not> (nowEdge m)\<^sup>+\<^sup>+ k k"
  shows "wfP (\<lambda>ptr k. nowEdge m k ptr)"
proof -
  let ?r = "{(k, ptr). nowEdge m k ptr}"
  let ?K = "insert ''__proto__'' (dom (own m))"
  have keys: "k \<in> ?K" if "indexGet m k = Info node" for k node
    using indexGet_Info [OF that] by auto
  have sub: "?r \<subseteq> ?K \<times> ?K"
    using nowEdge_source nowEdge_target keys by fast
  have "finite ?r"
    using finite_subset [OF sub] fin by simp
  moreover have "acyclic ?r"
    using acyc by (auto simp: acyclic_def tranclp_unfold)
  ultimately have "wf (?r\<inverse>)"
    by (rule finite_acyclic_wf_converse)
  moreover have "?r\<inverse> = {(ptr, k). nowEdge m k ptr}" by auto
  ultimately show ?thesis by (simp add: wfp_def)
qed

text \<open>
  C3. On a (finite) index whose selection-pointer graph has no cycle, the resolver
  returns for every name. Self-pointers, empty pointers and pointers under which the
  index holds no node record are not edges of \<open>nowEdge\<close>, so a snapshot that is
  acyclic apart from them qualifies.
\<close>

theorem getNowProxyNodeName_terminates:
  assumes "finite (dom (own m))" and "\<forall>k. \<not> (nowEdge m)\<^sup>+\<^sup>+ k k"
  shows "\<exists>y. getNowProxyNodeName m nm = Some y"
proof (cases "nm = [] \<or> \<not> truthy (indexGet m nm)")
  case True
  then show ?thesis by (auto simp: getNowProxyNodeName_def)
next
  case False
  then have eq: "getNowProxyNodeName m nm = nowLoop m (indexGet m nm)"
    by (simp add: getNowProxyNodeName_def)
  show ?thesis
  proof (cases "indexGet m nm")
    case (Info node)
    have "wfP (\<lambda>ptr k. nowEdge m k ptr)"
      using assms by (intro nowEdge_wf) auto
    from nowLoop_returns_wf [OF this Info] Info eq show ?thesis by simp
  next
    case (Builtin f)
    with eq show ?thesis by (simp add: nowLoop_nonnode)
  next
    case (Other b)
    with eq show ?thesis by (simp add: nowLoop_nonnode)
  qed
qed

lemma nowEdge_ranked:
  assumes "\<And>k ptr. nowEdge m k ptr \<Longrightarrow> rank ptr < (rank k :: nat)"
  shows "\<not> (nowEdge m)\<^sup>+\<^sup>+ k k"
proof
  assume c: "(nowEdge m)\<^sup>+\<^sup>+ k k"
  have "(nowEdge m)\<^sup>+\<^sup>+ a b \<Longrightarrow> rank b < rank a" for a b
    by (induction rule: tranclp_induct) (auto dest: assms)
  from this [OF c] show False by simp
qed

lemma nodeInfo_sel:
  "ProxyInfo.name (nodeInfo nm ptr) = nm" "latency (nodeInfo nm ptr) = ptr"
  by (simp_all add: nodeInfo_def)

lemma sampleIndex_own:
  "own sampleIndex ''GLOBAL'' = Some (nodeInfo ''GLOBAL'' (Some ''Pick''))"
  "own sampleIndex ''Pick'' = Some (nodeInfo ''Pick'' (Some ''Dangling''))"
  "own sampleIndex ''Dangling'' = Some (nodeInfo ''Dangling'' (Some ''gone''))"
  "own sampleIndex ''Auto'' = Some (nodeInfo ''Auto'' (Some ''Auto''))"
  "own sampleIndex ''Leaf'' = Some (nodeInfo ''Leaf'' None)"
  "proto sampleIndex = None"
  by (simp_all add: sampleIndex_def)

lemma sampleIndex_lookup:
  "indexGet sampleIndex ''GLOBAL'' = Info (nodeInfo ''GLOBAL'' (Some ''Pick''))"
  "indexGet sampleIndex ''Pick'' = Info (nodeInfo ''Pick'' (Some ''Dangling''))"
  "indexGet sampleIndex ''Dangling'' = Info (nodeInfo ''Dangling'' (Some ''gone''))"
  "indexGet sampleIndex ''Auto'' = Info (nodeInfo ''Auto'' (Some ''Auto''))"
  "indexGet sampleIndex ''Leaf'' = Info (nodeInfo ''Leaf'' None)"
  by (simp_all add: indexGet_own sampleIndex_own)

lemma sampleIndex_gone: "indexGet sampleIndex ''gone'' = Other False"
  by (rule indexGet_absent)
     (simp_all add: sampleIndex_def inObject_def objectPrototypeMethods_def)

lemma sampleIndex_dom:
  "dom (own sampleIndex) = {''Leaf'', ''Auto'', ''Dangling'', ''Pick'', ''GLOBAL''}"
  by (simp add: sampleIndex_def)


lemma sampleIndex_ranked:
  assumes "nowEdge sampleIndex k ptr"
  shows "sampleRank ptr < sampleRank k"
proof -
  from nowEdge_source [OF assms] obtain node where "indexGet sampleIndex k = Info node" ..
  from indexGet_Info [OF this] have "k \<in> dom (own sampleIndex)"
    by (auto simp: sampleIndex_own)
  then consider "k = ''GLOBAL''" | "k = ''Pick''" | "k = ''Dangling''" | "k = ''Auto''" | "k = ''Leaf''"
    unfolding sampleIndex_dom by (simp only: insert_iff empty_iff) metis
  then show ?thesis
  proof cases
    case 1
    with assms have "ptr = ''Pick''"
      by (simp add: nowEdge_at [of sampleIndex "''GLOBAL''", OF sampleIndex_lookup(1)] nodeInfo_sel)
    with 1 show ?thesis by (simp add: sampleRank_def)
  next
    case 2
    with assms have "ptr = ''Dangling''"
      by (simp add: nowEdge_at [of sampleIndex "''Pick''", OF sampleIndex_lookup(2)] nodeInfo_sel)
    with 2 show ?thesis by (simp add: sampleRank_def)
  next
    case 3
    with assms have "ptr = ''gone'' \<and> (\<exists>n. indexGet sampleIndex ptr = Info n)"
      by (simp add: nowEdge_at [of sampleIndex "''Dangling''", OF sampleIndex_lookup(3)] nodeInfo_sel)
    then have "\<exists>n. indexGet sampleIndex ''gone'' = Info n" by blast
    then show ?thesis by (simp add: sampleIndex_gone)
  next
    case 4
    with assms show ?thesis
      by (auto simp: nowEdge_at [of sampleIndex "''Auto''", OF sampleIndex_lookup(4)] nodeInfo_sel)
  next
    case 5
    with assms show ?thesis
      by (simp add: nowEdge_at [of sampleIndex "''Leaf''", OF sampleIndex_lookup(5)] nodeInfo_sel)
  qed
qed


text \<open>The sample index is finite and acyclic (it is ranked), so C3 applies to it.\<close>

theorem getNowProxyNodeName_terminates_witness:
  "finite (dom (own sampleIndex)) \<and> (\<forall>k. \<not> (nowEdge sampleIndex)\<^sup>+\<^sup>+ k k)
   \<and> (\<exists>y. getNowProxyNodeName sampleIndex ''GLOBAL'' = Some y)"
proof -
  have f: "finite (dom (own sampleIndex))" by (simp add: sampleIndex_dom)
  have a: "\<forall>k. \<not> (nowEdge sampleIndex)\<^sup>+\<^sup>+ k k"
  proof
    fix k
    show "\<not> (nowEdge sampleIndex)\<^sup>+\<^sup>+ k k"
      by (rule nowEdge_ranked [of sampleIndex sampleRank]) (rule sampleIndex_ranked)
  qed
  from getNowProxyNodeName_terminates [OF f a, of "''GLOBAL''"] f a show ?thesis by simp
qed

lemma cyclicIndex_lookup:
  "indexGet cyclicIndex ''A'' = Info (nodeInfo ''A'' (Some ''B''))"
  "indexGet cyclicIndex ''B'' = Info (nodeInfo ''B'' (Some ''A''))"
  by (simp_all add: indexGet_own cyclicIndex_def)

text \<open>
  Without the precondition the loop need not return: on two nodes that point at each
  other it runs forever.
\<close>

lemma nowLoop_cycle_never_returns:
  assumes ret: "nowLoop m node = Some y"
  shows "\<not> (m = cyclicIndex \<and>
    (node = Info (nodeInfo ''A'' (Some ''B'')) \<or> node = Info (nodeInfo ''B'' (Some ''A''))))"
proof (rule nowLoop.raw_induct
    [where P = "\<lambda>(m :: NodeIndex) (node :: looked) (y :: string option). \<not> (m = cyclicIndex \<and>
        (node = Info (nodeInfo ''A'' (Some ''B'')) \<or> node = Info (nodeInfo ''B'' (Some ''A''))))",
      OF _ ret])
  fix f :: "NodeIndex \<Rightarrow> looked \<Rightarrow> string option option"
    and m :: NodeIndex and node :: looked and y :: "string option"
  assume IH: "\<And>m' node' y'. f m' node' = Some y' \<Longrightarrow>
      \<not> (m' = cyclicIndex \<and>
        (node' = Info (nodeInfo ''A'' (Some ''B'')) \<or> node' = Info (nodeInfo ''B'' (Some ''A''))))"
  assume body: "(case latencyOf node of
        None \<Rightarrow> Some (nameOf node)
      | Some ptr \<Rightarrow>
          if ptr \<noteq> [] \<and> Some ptr \<noteq> nameOf node
          then (if \<not> truthy (indexGet m ptr) then Some (nameOf node)
                else f m (indexGet m ptr))
          else Some (nameOf node)) = Some y"
  show "\<not> (m = cyclicIndex \<and>
    (node = Info (nodeInfo ''A'' (Some ''B'')) \<or> node = Info (nodeInfo ''B'' (Some ''A''))))"
  proof
    assume c: "m = cyclicIndex \<and>
      (node = Info (nodeInfo ''A'' (Some ''B'')) \<or> node = Info (nodeInfo ''B'' (Some ''A'')))"
    then consider (a) "node = Info (nodeInfo ''A'' (Some ''B''))"
      | (b) "node = Info (nodeInfo ''B'' (Some ''A''))"
      by (elim conjE disjE)
    then show False
    proof cases
      case a
      with c body have "f cyclicIndex (Info (nodeInfo ''B'' (Some ''A''))) = Some y"
        by (simp add: nodeInfo_sel cyclicIndex_lookup)
      from IH [OF this] show False by simp
    next
      case b
      with c body have "f cyclicIndex (Info (nodeInfo ''A'' (Some ''B''))) = Some y"
        by (simp add: nodeInfo_sel cyclicIndex_lookup)
      from IH [OF this] show False by simp
    qed
  qed
qed

lemma nowLoop_cycle_diverges:
  "nowLoop cyclicIndex (Info (nodeInfo ''A'' (Some ''B''))) = None"
proof (cases "nowLoop cyclicIndex (Info (nodeInfo ''A'' (Some ''B'')))")
  case None
  then show ?thesis .
next
  case (Some y)
  from nowLoop_cycle_never_returns [OF this] show ?thesis by simp
qed

lemma getNowProxyNodeName_cycle_diverges: "getNowProxyNodeName cyclicIndex ''A'' = None"
  using nowLoop_cycle_diverges by (simp add: getNowProxyNodeName_def cyclicIndex_lookup)

lemma emptyIndex_constructor: "indexGet emptyIndex ''constructor'' = Builtin ''Object''"
  by (simp add: indexGet_def emptyIndex_def objectPrototypeGet_def objectPrototypeMethods_def)

lemma builtinPointerIndex_lookup:
  "indexGet builtinPointerIndex ''G'' = Info (nodeInfo ''G'' (Some ''constructor''))"
  "indexGet builtinPointerIndex ''constructor'' = Builtin ''Object''"
  by (simp_all add: indexGet_def builtinPointerIndex_def objectPrototypeGet_def
      objectPrototypeMethods_def)

text \<open>
  C2. A name absent from the index should come back unchanged, and a pointer to an
  unknown name should end the walk at the last known node. The lookups of lines 247
  and 254 are property reads on a plain object and find what it inherits: on the empty
  index the name \<^verbatim>\<open>constructor\<close> resolves to \<^verbatim>\<open>Object\<close>, the name of the inherited
  function, and so does the node \<^verbatim>\<open>G\<close> whose pointer is \<^verbatim>\<open>constructor\<close>.
\<close>

theorem getNowProxyNodeName_inherited_name:
  "own emptyIndex ''constructor'' = None
   \<and> getNowProxyNodeName emptyIndex ''constructor'' = Some (Some ''Object'')
   \<and> own builtinPointerIndex ''constructor'' = None
   \<and> getNowProxyNodeName builtinPointerIndex ''G'' = Some (Some ''Object'')"
proof -
  have a: "getNowProxyNodeName emptyIndex ''constructor'' = Some (Some ''Object'')"
    by (simp add: getNowProxyNodeName_def emptyIndex_constructor nowLoop_nonnode)
  have "nowLoop builtinPointerIndex (Info (nodeInfo ''G'' (Some ''constructor'')))
      = nowLoop builtinPointerIndex (Builtin ''Object'')"
    by (subst nowLoop.simps) (simp add: nodeInfo_sel builtinPointerIndex_lookup)
  then have b: "getNowProxyNodeName builtinPointerIndex ''G'' = Some (Some ''Object'')"
    by (simp add: getNowProxyNodeName_def builtinPointerIndex_lookup nowLoop_nonnode)
  show ?thesis
    using a b by (simp add: emptyIndex_def builtinPointerIndex_def)
qed

section \<open>Refresh: order of the published list\<close>

lemma indexOf_notin: "x \<notin> set xs \<Longrightarrow> indexOf xs x = -1"
  by (induction xs) auto

lemma indexOf_in:
  "x \<in> set xs \<Longrightarrow>
     0 \<le> indexOf xs x \<and> nat (indexOf xs x) < length xs \<and> xs ! nat (indexOf xs x) = x
     \<and> (\<forall>j<nat (indexOf xs x). xs ! j \<noteq> x)"
proof (induction xs)
  case Nil
  then show ?case by simp
next
  case (Cons y ys)
  show ?case
  proof (cases "y = x")
    case True
    then show ?thesis by simp
  next
    case False
    with Cons.prems have "x \<in> set ys" by simp
    from Cons.IH [OF this] have ih: "0 \<le> indexOf ys x" "nat (indexOf ys x) < length ys"
      "ys ! nat (indexOf ys x) = x" "\<forall>j<nat (indexOf ys x). ys ! j \<noteq> x"
      by simp_all
    have idx: "indexOf (y # ys) x = indexOf ys x + 1"
      using False ih(1) by (simp add: Let_def)
    have n: "nat (indexOf (y # ys) x) = Suc (nat (indexOf ys x))"
      unfolding idx using ih(1) by (simp add: nat_add_distrib)
    have first: "\<forall>j<nat (indexOf (y # ys) x). (y # ys) ! j \<noteq> x"
    proof (intro allI impI)
      fix j
      assume "j < nat (indexOf (y # ys) x)"
      then have "j < Suc (nat (indexOf ys x))" unfolding n .
      then show "(y # ys) ! j \<noteq> x"
        using False ih(4) by (cases j) simp_all
    qed
    have "0 \<le> indexOf (y # ys) x" unfolding idx using ih(1) by simp
    moreover have "nat (indexOf (y # ys) x) < length (y # ys)" unfolding n using ih(2) by simp
    moreover have "(y # ys) ! nat (indexOf (y # ys) x) = x" unfolding n using ih(3) by simp
    ultimately show ?thesis using first by blast
  qed
qed

lemma indexOf_less_length: "indexOf xs x < int (length xs)"
proof (cases "x \<in> set xs")
  case True
  from indexOf_in [OF this] show ?thesis by linarith
next
  case False
  then show ?thesis by (simp add: indexOf_notin)
qed

lemma indexOf_snoc_new: "x \<notin> set xs \<Longrightarrow> indexOf (xs @ [x]) x = int (length xs)"
  by (induction xs) (auto simp: Let_def)

lemma insort_cmp_key: "insort_cmp (\<lambda>a b. f a - f b) x ys = insort_key f x ys"
  for f :: "'a \<Rightarrow> int"
  by (induction ys) auto

lemma array_sort_key: "array_sort (\<lambda>a b. f a - f b) xs = sort_key f xs"
  for f :: "'a \<Rightarrow> int"
  unfolding array_sort_def sort_key_def by (induction xs) (simp_all add: insort_cmp_key)

lemma sortedProxies_sort_key:
  "sortedProxies pxs sidx =
     sort_key (\<lambda>p. indexOf sidx (Proxy.name p)) (filter hasMembers (map snd pxs))"
  by (simp add: sortedProxies_def array_sort_key)

lemma fetchProxies_success:
  assumes "fetchProxyProvidersAPI eng = Inr pvs" "fetchProxiesAPI eng = Inr pxs"
    "map_of pxs ''GLOBAL'' = Some global"
  shows "fetchProxies sg eng s =
     ([FetchProxyProvidersAPI, FetchProxiesAPI], Inr (),
      setProxiesInfo sg (allProxies pxs (sortedProviders pvs))
        (s\<lparr> Store.proxies := sortedProxies pxs (sortIndex global),
            proxyProviders := sortedProviders pvs \<rparr>))"
  using assms by (simp add: fetchProxies_def)

lemma setProxiesInfo_fold:
  "fold (\<lambda>proxy (nm, lm).
           (assignIndex nm (Proxy.name proxy) (g proxy), assignLatency lm (Proxy.name proxy) (h proxy)))
        ps (nm0, lm0)
   = (fold (\<lambda>proxy nm. assignIndex nm (Proxy.name proxy) (g proxy)) ps nm0,
      fold (\<lambda>proxy lm. assignLatency lm (Proxy.name proxy) (h proxy)) ps lm0)"
  by (induction ps arbitrary: nm0 lm0) auto

lemma setProxiesInfo_fields:
  "Store.proxies (setProxiesInfo sg ps s) = Store.proxies s"
  "proxyProviders (setProxiesInfo sg ps s) = proxyProviders s"
  "proxyLatencyTestingMap (setProxiesInfo sg ps s) = proxyLatencyTestingMap s"
  "proxyNodeMap (setProxiesInfo sg ps s) =
     fold (\<lambda>proxy nm. assignIndex nm (Proxy.name proxy) (toProxyInfo proxy)) ps
       \<lparr> own = own (proxyNodeMap s), proto = None \<rparr>"
  "latencyMap (setProxiesInfo sg ps s) =
     fold (\<lambda>proxy lm. assignLatency lm (Proxy.name proxy)
                        (getLatencyFromProxy sg proxy (urlForLatencyTest sg) True))
       ps (latencyMap s)"
  by (simp_all add: setProxiesInfo_def setProxiesInfo_fold)

lemma published_sorted_props:
  fixes sidx :: "string list" and groups :: "Proxy list"
  defines "rank \<equiv> \<lambda>p. indexOf sidx (Proxy.name p)"
  defines "pub \<equiv> sort_key rank groups"
  shows "mset pub = mset groups"
    and "sorted (map rank pub)"
    and "\<forall>i<length pub. \<forall>j<length pub.
           Proxy.name (pub ! i) \<notin> set sidx \<and> Proxy.name (pub ! j) \<in> set sidx \<longrightarrow> i < j"
    and "filter (\<lambda>p. Proxy.name p \<notin> set sidx) pub = filter (\<lambda>p. Proxy.name p \<notin> set sidx) groups"
proof -
  show "mset pub = mset groups" by (simp add: pub_def)
  show s: "sorted (map rank pub)" by (simp add: pub_def)
  show "\<forall>i<length pub. \<forall>j<length pub.
           Proxy.name (pub ! i) \<notin> set sidx \<and> Proxy.name (pub ! j) \<in> set sidx \<longrightarrow> i < j"
  proof (intro allI impI)
    fix i j
    assume i: "i < length pub" and j: "j < length pub"
      and a: "Proxy.name (pub ! i) \<notin> set sidx \<and> Proxy.name (pub ! j) \<in> set sidx"
    have ri: "rank (pub ! i) = -1" using a by (simp add: rank_def indexOf_notin)
    have rj: "0 \<le> rank (pub ! j)" using a indexOf_in [of "Proxy.name (pub ! j)" sidx] by (simp add: rank_def)
    show "i < j"
    proof (rule ccontr)
      assume "\<not> i < j"
      then have "j \<le> i" by simp
      with s i have "map rank pub ! j \<le> map rank pub ! i"
        by (intro sorted_nth_mono) auto
      with i j ri rj show False by simp
    qed
  qed
  have eq: "(\<lambda>p. Proxy.name p \<notin> set sidx) = (\<lambda>p. rank p = -1)"
  proof
    fix p
    show "(Proxy.name p \<notin> set sidx) = (rank p = -1)"
      using indexOf_in [of "Proxy.name p" sidx] indexOf_notin [of "Proxy.name p" sidx]
      by (auto simp: rank_def)
  qed
  show "filter (\<lambda>p. Proxy.name p \<notin> set sidx) pub = filter (\<lambda>p. Proxy.name p \<notin> set sidx) groups"
    unfolding eq pub_def by (rule sort_key_stable)
qed

text \<open>
  Where \<^verbatim>\<open>GLOBAL\<close> is not among the members, the entries named \<^verbatim>\<open>GLOBAL\<close> have the
  highest rank and stand at the end.
\<close>

lemma published_global_last:
  fixes members :: "string list" and groups :: "Proxy list"
  defines "sidx \<equiv> members @ [''GLOBAL'']"
  defines "rank \<equiv> \<lambda>p. indexOf sidx (Proxy.name p)"
  defines "pub \<equiv> sort_key rank groups"
  assumes fresh: "''GLOBAL'' \<notin> set members"
  shows "\<forall>i<length pub. \<forall>j<length pub.
           Proxy.name (pub ! i) \<noteq> ''GLOBAL'' \<and> Proxy.name (pub ! j) = ''GLOBAL'' \<longrightarrow> i < j"
    and "g \<in> set groups \<Longrightarrow> Proxy.name g = ''GLOBAL'' \<Longrightarrow>
           pub \<noteq> [] \<and> Proxy.name (last pub) = ''GLOBAL''"
proof -
  have top: "rank p = int (length members)" if "Proxy.name p = ''GLOBAL''" for p
    using that indexOf_snoc_new [OF fresh] by (simp add: rank_def sidx_def)
  have below: "rank p < int (length members)" if "Proxy.name p \<noteq> ''GLOBAL''" for p
  proof (cases "Proxy.name p \<in> set sidx")
    case False
    then show ?thesis by (simp add: rank_def indexOf_notin)
  next
    case True
    from indexOf_in [OF this]
    have r: "0 \<le> rank p" "nat (rank p) < length sidx" "sidx ! nat (rank p) = Proxy.name p"
      by (simp_all add: rank_def)
    have "nat (rank p) \<noteq> length members"
    proof
      assume "nat (rank p) = length members"
      with r(3) have "Proxy.name p = ''GLOBAL''" by (simp add: sidx_def)
      with that show False by simp
    qed
    with r(1,2) show ?thesis by (simp add: sidx_def)
  qed
  have s: "sorted (map rank pub)" by (simp add: pub_def)
  show "\<forall>i<length pub. \<forall>j<length pub.
           Proxy.name (pub ! i) \<noteq> ''GLOBAL'' \<and> Proxy.name (pub ! j) = ''GLOBAL'' \<longrightarrow> i < j"
  proof (intro allI impI)
    fix i j
    assume i: "i < length pub" and j: "j < length pub"
      and a: "Proxy.name (pub ! i) \<noteq> ''GLOBAL'' \<and> Proxy.name (pub ! j) = ''GLOBAL''"
    show "i < j"
    proof (rule ccontr)
      assume "\<not> i < j"
      then have "j \<le> i" by simp
      with s i have "map rank pub ! j \<le> map rank pub ! i"
        by (intro sorted_nth_mono) auto
      with i j top [of "pub ! j"] below [of "pub ! i"] a show False by simp
    qed
  qed
  show "pub \<noteq> [] \<and> Proxy.name (last pub) = ''GLOBAL''"
    if g: "g \<in> set groups" and ng: "Proxy.name g = ''GLOBAL''"
  proof -
    from g have gp: "g \<in> set pub" by (simp add: pub_def)
    then have ne: "pub \<noteq> []" by auto
    from gp obtain i where i: "i < length pub" "pub ! i = g"
      by (auto simp: in_set_conv_nth)
    have "map rank pub ! i \<le> map rank pub ! (length pub - 1)"
      using s i(1) by (intro sorted_nth_mono) auto
    then have "rank g \<le> rank (last pub)"
      using i ne by (simp add: last_conv_nth)
    with top [OF ng] below [of "last pub"] have "Proxy.name (last pub) = ''GLOBAL''"
      by fastforce
    with ne show ?thesis by simp
  qed
qed

text \<open>
  C4, as the code has it. After a successful refresh the published list is a
  rearrangement of the fetched proxies that have members, in ascending position of
  their names in the ordering: the members of \<^verbatim>\<open>GLOBAL\<close>, then \<^verbatim>\<open>GLOBAL\<close>, each name at
  its first occurrence. A name outside the ordering has index \<open>-1\<close>, so its proxy
  stands before every ranked one, and the unranked proxies keep the order in which
  they were fetched. When \<^verbatim>\<open>GLOBAL\<close> does not list itself, the entries named \<^verbatim>\<open>GLOBAL\<close>
  stand after all others; when it also has members and carries its own name, the
  list ends with an entry of that name, which is \<^verbatim>\<open>GLOBAL\<close> itself when no other
  fetched proxy has the name.
\<close>

theorem fetchProxies_order:
  assumes "fetchProxyProvidersAPI eng = Inr pvs" and "fetchProxiesAPI eng = Inr pxs"
    and "map_of pxs ''GLOBAL'' = Some global"
  shows "let pub = Store.proxies (snd (snd (fetchProxies sg eng s)));
             members = (case all global of None \<Rightarrow> [] | Some ms \<Rightarrow> ms);
             sidx = members @ [''GLOBAL''];
             rank = (\<lambda>p. indexOf sidx (Proxy.name p));
             groups = filter (\<lambda>p. case all p of None \<Rightarrow> False | Some ms \<Rightarrow> ms \<noteq> []) (map snd pxs)
         in fst (snd (fetchProxies sg eng s)) = Inr ()
          \<and> mset pub = mset groups
          \<and> sorted (map rank pub)
          \<and> (\<forall>p\<in>set pub. Proxy.name p \<in> set sidx \<longrightarrow>
                0 \<le> rank p \<and> sidx ! nat (rank p) = Proxy.name p
                \<and> (\<forall>j<nat (rank p). sidx ! j \<noteq> Proxy.name p))
          \<and> (\<forall>p\<in>set pub. Proxy.name p \<notin> set sidx \<longrightarrow> rank p = -1)
          \<and> (\<forall>i<length pub. \<forall>j<length pub.
                Proxy.name (pub ! i) \<notin> set sidx \<and> Proxy.name (pub ! j) \<in> set sidx \<longrightarrow> i < j)
          \<and> filter (\<lambda>p. Proxy.name p \<notin> set sidx) pub
              = filter (\<lambda>p. Proxy.name p \<notin> set sidx) groups
          \<and> (''GLOBAL'' \<notin> set members \<longrightarrow>
                (\<forall>i<length pub. \<forall>j<length pub.
                   Proxy.name (pub ! i) \<noteq> ''GLOBAL'' \<and> Proxy.name (pub ! j) = ''GLOBAL'' \<longrightarrow> i < j))
          \<and> (''GLOBAL'' \<notin> set members \<and> members \<noteq> [] \<and> Proxy.name global = ''GLOBAL'' \<longrightarrow>
                pub \<noteq> [] \<and> Proxy.name (last pub) = ''GLOBAL''
                \<and> ((\<forall>p\<in>set (map snd pxs). Proxy.name p = ''GLOBAL'' \<longrightarrow> p = global) \<longrightarrow>
                     last pub = global))"
proof -
  let ?members = "case all global of None \<Rightarrow> [] | Some ms \<Rightarrow> ms"
  let ?sidx = "?members @ [''GLOBAL'']"
  let ?rank = "\<lambda>p. indexOf ?sidx (Proxy.name p)"
  let ?groups = "filter (\<lambda>p. case all p of None \<Rightarrow> False | Some ms \<Rightarrow> ms \<noteq> []) (map snd pxs)"
  let ?pub = "sort_key ?rank ?groups"
  have hm: "hasMembers = (\<lambda>p. case all p of None \<Rightarrow> False | Some ms \<Rightarrow> ms \<noteq> [])"
    by (rule ext) (simp add: hasMembers_def)
  have pub: "Store.proxies (snd (snd (fetchProxies sg eng s))) = ?pub"
    by (simp add: fetchProxies_success [OF assms] setProxiesInfo_fields sortedProxies_sort_key
        sortIndex_def hm)
  have ok: "fst (snd (fetchProxies sg eng s)) = Inr ()"
    by (simp add: fetchProxies_success [OF assms])
  note props = published_sorted_props [of ?sidx ?groups]
  have r1: "\<forall>p\<in>set ?pub. Proxy.name p \<in> set ?sidx \<longrightarrow>
                0 \<le> ?rank p \<and> ?sidx ! nat (?rank p) = Proxy.name p
                \<and> (\<forall>j<nat (?rank p). ?sidx ! j \<noteq> Proxy.name p)"
    using indexOf_in by fast
  have r2: "\<forall>p\<in>set ?pub. Proxy.name p \<notin> set ?sidx \<longrightarrow> ?rank p = -1"
    by (simp add: indexOf_notin)
  have r3: "''GLOBAL'' \<notin> set ?members \<longrightarrow>
                (\<forall>i<length ?pub. \<forall>j<length ?pub.
                   Proxy.name (?pub ! i) \<noteq> ''GLOBAL'' \<and> Proxy.name (?pub ! j) = ''GLOBAL'' \<longrightarrow> i < j)"
    using published_global_last(1) [of ?members ?groups] by (intro impI)
  have r4: "''GLOBAL'' \<notin> set ?members \<and> ?members \<noteq> [] \<and> Proxy.name global = ''GLOBAL'' \<longrightarrow>
                ?pub \<noteq> [] \<and> Proxy.name (last ?pub) = ''GLOBAL''
                \<and> ((\<forall>p\<in>set (map snd pxs). Proxy.name p = ''GLOBAL'' \<longrightarrow> p = global) \<longrightarrow>
                     last ?pub = global)"
  proof (intro impI)
    assume a: "''GLOBAL'' \<notin> set ?members \<and> ?members \<noteq> [] \<and> Proxy.name global = ''GLOBAL''"
    from assms(3) have "(''GLOBAL'', global) \<in> set pxs" by (rule map_of_SomeD)
    then have "global \<in> set (map snd pxs)" by force
    moreover from a have "case all global of None \<Rightarrow> False | Some ms \<Rightarrow> ms \<noteq> []"
      by (cases "all global") simp_all
    ultimately have g: "global \<in> set ?groups" by simp
    from a have fresh: "''GLOBAL'' \<notin> set ?members" and ng: "Proxy.name global = ''GLOBAL''"
      by simp_all
    note l = published_global_last(2) [of ?members global ?groups, OF fresh g ng]
    from l have "?pub \<noteq> []" by (rule conjunct1)
    then have "last ?pub \<in> set ?pub" by (rule last_in_set)
    then have "last ?pub \<in> set ?groups" by (simp only: set_sort)
    then have "last ?pub \<in> set (map snd pxs)" by (simp only: set_filter) blast
    then have "(\<forall>p\<in>set (map snd pxs). Proxy.name p = ''GLOBAL'' \<longrightarrow> p = global) \<longrightarrow>
                     last ?pub = global"
      using l by blast
    with l show "?pub \<noteq> [] \<and> Proxy.name (last ?pub) = ''GLOBAL''
                \<and> ((\<forall>p\<in>set (map snd pxs). Proxy.name p = ''GLOBAL'' \<longrightarrow> p = global) \<longrightarrow>
                     last ?pub = global)"
      by simp
  qed
  show ?thesis
    unfolding Let_def pub using ok props r1 r2 r3 r4 by blast
qed

section \<open>Refresh: the node index and the latency map\<close>

lemma fold_upd_other:
  "k \<notin> f ` set ps \<Longrightarrow> fold (\<lambda>p m. m(f p \<mapsto> g p)) ps m0 k = m0 k"
  by (induction ps arbitrary: m0) auto

lemma fold_upd_last:
  "\<forall>r\<in>set post. f r \<noteq> f q \<Longrightarrow>
   fold (\<lambda>p m. m(f p \<mapsto> g p)) (pre @ q # post) m0 (f q) = Some (g q)"
proof -
  assume a: "\<forall>r\<in>set post. f r \<noteq> f q"
  then have "f q \<notin> f ` set post" by auto
  then have "fold (\<lambda>p m. m(f p \<mapsto> g p)) post M (f q) = M (f q)" for M
    by (rule fold_upd_other)
  then show ?thesis by simp
qed

lemma fold_upd_dom:
  "dom (fold (\<lambda>p m. m(f p \<mapsto> g p)) ps m0) = dom m0 \<union> f ` set ps"
  by (induction ps arbitrary: m0) auto

lemma fold_upd_cong:
  "ma k = mb k \<Longrightarrow>
   fold (\<lambda>p m. m(f p \<mapsto> g p)) ps ma k = fold (\<lambda>p m. m(f p \<mapsto> g p)) ps mb k"
proof (induction ps arbitrary: ma mb)
  case Nil
  then show ?case by simp
next
  case (Cons p ps)
  have "(ma(f p \<mapsto> g p)) k = (mb(f p \<mapsto> g p)) k"
    using Cons.prems by simp
  from Cons.IH [of "ma(f p \<mapsto> g p)" "mb(f p \<mapsto> g p)", OF this]
  show ?case by (simp only: fold_simps comp_apply)
qed

text \<open>
  Under every key but \<^verbatim>\<open>__proto__\<close> the assignments of \<open>setProxiesInfo\<close> are plain map
  updates.
\<close>

lemma assignIndex_own:
  "k \<noteq> ''__proto__'' \<Longrightarrow> own (assignIndex idx n v) k = ((own idx)(n \<mapsto> v)) k"
  by (simp add: assignIndex_def)

lemma assignLatency_at:
  "k \<noteq> ''__proto__'' \<Longrightarrow> assignLatency lm n d k = (lm(n \<mapsto> d)) k"
  by (simp add: assignLatency_def)

lemma own_fold_assign:
  assumes "k \<noteq> ''__proto__''"
  shows "own (fold (\<lambda>p idx. assignIndex idx (f p) (g p)) ps idx0) k
       = fold (\<lambda>p m. m(f p \<mapsto> g p)) ps (own idx0) k"
proof (induction ps arbitrary: idx0)
  case Nil
  show ?case by simp
next
  case (Cons p ps)
  have "own (fold (\<lambda>p idx. assignIndex idx (f p) (g p)) ps (assignIndex idx0 (f p) (g p))) k
      = fold (\<lambda>p m. m(f p \<mapsto> g p)) ps (own (assignIndex idx0 (f p) (g p))) k"
    by (rule Cons.IH)
  also have "\<dots> = fold (\<lambda>p m. m(f p \<mapsto> g p)) ps ((own idx0)(f p \<mapsto> g p)) k"
    by (rule fold_upd_cong [where ma = "own (assignIndex idx0 (f p) (g p))"
          and mb = "(own idx0)(f p \<mapsto> g p)", OF assignIndex_own [OF assms]])
  finally show ?case by (simp only: fold_simps comp_apply)
qed

lemma latency_fold_assign:
  assumes "k \<noteq> ''__proto__''"
  shows "fold (\<lambda>p lm. assignLatency lm (f p) (h p)) ps lm0 k
       = fold (\<lambda>p m. m(f p \<mapsto> h p)) ps lm0 k"
proof (induction ps arbitrary: lm0)
  case Nil
  show ?case by simp
next
  case (Cons p ps)
  have "fold (\<lambda>p lm. assignLatency lm (f p) (h p)) ps (assignLatency lm0 (f p) (h p)) k
      = fold (\<lambda>p m. m(f p \<mapsto> h p)) ps (assignLatency lm0 (f p) (h p)) k"
    by (rule Cons.IH)
  also have "\<dots> = fold (\<lambda>p m. m(f p \<mapsto> h p)) ps (lm0(f p \<mapsto> h p)) k"
    by (rule fold_upd_cong [where ma = "assignLatency lm0 (f p) (h p)"
          and mb = "lm0(f p \<mapsto> h p)", OF assignLatency_at [OF assms]])
  finally show ?case by (simp only: fold_simps comp_apply)
qed

lemma own_fold_assign_other:
  "k \<notin> f ` set ps \<Longrightarrow> own (fold (\<lambda>p idx. assignIndex idx (f p) (g p)) ps idx0) k = own idx0 k"
  by (induction ps arbitrary: idx0) (auto simp: assignIndex_def)

lemma latency_fold_assign_other:
  "k \<notin> f ` set ps \<Longrightarrow> fold (\<lambda>p lm. assignLatency lm (f p) (h p)) ps lm0 k = lm0 k"
  by (induction ps arbitrary: lm0) (auto simp: assignLatency_def)

text \<open>No assignment creates or removes an own property \<^verbatim>\<open>__proto__\<close>.\<close>

lemma own_fold_assign_proto:
  "(own (fold (\<lambda>p idx. assignIndex idx (f p) (g p)) ps idx0) ''__proto__'' = None)
     = (own idx0 ''__proto__'' = None)"
  by (induction ps arbitrary: idx0) (auto simp: assignIndex_def)

lemma latency_fold_assign_proto:
  "(fold (\<lambda>p lm. assignLatency lm (f p) (h p)) ps lm0 ''__proto__'' = None)
     = (lm0 ''__proto__'' = None)"
  by (induction ps arbitrary: lm0) (auto simp: assignLatency_def)

lemma own_fold_assign_dom:
  "dom (own (fold (\<lambda>p idx. assignIndex idx (f p) (g p)) ps idx0))
     = dom (own idx0) \<union> (f ` set ps - {''__proto__''})"
proof (rule set_eqI)
  fix k
  show "(k \<in> dom (own (fold (\<lambda>p idx. assignIndex idx (f p) (g p)) ps idx0)))
      = (k \<in> dom (own idx0) \<union> (f ` set ps - {''__proto__''}))"
  proof (cases "k = ''__proto__''")
    case True
    then show ?thesis
      using own_fold_assign_proto [of f g ps idx0] by (auto simp: dom_def)
  next
    case False
    have "(k \<in> dom (own (fold (\<lambda>p idx. assignIndex idx (f p) (g p)) ps idx0)))
        = (k \<in> dom (fold (\<lambda>p m. m(f p \<mapsto> g p)) ps (own idx0)))"
      using own_fold_assign [OF False, of f g ps idx0] by (simp add: dom_def)
    then show ?thesis using False by (simp add: fold_upd_dom)
  qed
qed

lemma latency_fold_assign_dom:
  "dom (fold (\<lambda>p lm. assignLatency lm (f p) (h p)) ps lm0)
     = dom lm0 \<union> (f ` set ps - {''__proto__''})"
proof (rule set_eqI)
  fix k
  show "(k \<in> dom (fold (\<lambda>p lm. assignLatency lm (f p) (h p)) ps lm0))
      = (k \<in> dom lm0 \<union> (f ` set ps - {''__proto__''}))"
  proof (cases "k = ''__proto__''")
    case True
    then show ?thesis
      using latency_fold_assign_proto [of f h ps lm0] by (auto simp: dom_def)
  next
    case False
    have "(k \<in> dom (fold (\<lambda>p lm. assignLatency lm (f p) (h p)) ps lm0))
        = (k \<in> dom (fold (\<lambda>p m. m(f p \<mapsto> h p)) ps lm0))"
      using latency_fold_assign [OF False, of f h ps lm0] by (simp add: dom_def)
    then show ?thesis using False by (simp add: fold_upd_dom)
  qed
qed

text \<open>
  Reading the index under a name that was assigned finds a node record, also under
  \<^verbatim>\<open>__proto__\<close>, where the accessor returns the record that became the prototype.
\<close>

lemma fieldTruthy_proto: "fieldTruthy v ''__proto__'' = None"
  by (simp add: fieldTruthy_def)

lemma assignIndex_found: "\<exists>node. indexGet (assignIndex idx n v) n = Info node"
proof (cases "n = ''__proto__'' \<and> own idx n = None")
  case True
  then have "indexGet (assignIndex idx n v) n = Info v"
    by (simp add: assignIndex_def indexGet_def fieldTruthy_proto objectPrototypeGet_def)
  then show ?thesis ..
next
  case False
  then have "indexGet (assignIndex idx n v) n = Info v"
    by (auto simp: assignIndex_def indexGet_def)
  then show ?thesis ..
qed

lemma assignIndex_keeps:
  assumes "\<exists>node. indexGet idx k = Info node"
  shows "\<exists>node. indexGet (assignIndex idx n v) k = Info node"
proof -
  from assms obtain node where "indexGet idx k = Info node" ..
  from indexGet_Info [OF this]
  consider (own) "own idx k = Some node"
    | (proto) "k = ''__proto__''" "own idx k = None" "proto idx = Some node"
    by auto
  then show ?thesis
  proof cases
    case own
    then show ?thesis by (simp add: assignIndex_def indexGet_def)
  next
    case proto
    show ?thesis
    proof (cases "n = ''__proto__''")
      case True
      with proto show ?thesis using assignIndex_found [of idx n v] by simp
    next
      case False
      with proto show ?thesis
        by (simp add: assignIndex_def indexGet_def fieldTruthy_proto objectPrototypeGet_def)
    qed
  qed
qed

lemma fold_assign_found:
  "n \<in> f ` set ps \<Longrightarrow>
   \<exists>node. indexGet (fold (\<lambda>p idx. assignIndex idx (f p) (g p)) ps idx0) n = Info node"
proof (induction ps rule: rev_induct)
  case Nil
  then show ?case by simp
next
  case (snoc p ps)
  show ?case
  proof (cases "f p = n")
    case True
    then show ?thesis using assignIndex_found [of _ n "g p"] by simp
  next
    case False
    with snoc.prems have "n \<in> f ` set ps" by auto
    from assignIndex_keeps [OF snoc.IH [OF this]] show ?thesis by simp
  qed
qed

lemma providerNodes_tagged:
  "providerNodes pxs pv =
     map (tagged pv)
       (filter (\<lambda>proxy. \<not> inObject (map fst pxs) (Proxy.name proxy)) (ProxyProvider.proxies pv))"
  by (simp add: providerNodes_def tagged_def)

lemma tagged_name: "Proxy.name (tagged pv proxy) = Proxy.name proxy"
  by (simp add: tagged_def)


lemma providerNodes_names_sub:
  "q \<in> set (providerNodes pxs pv) \<Longrightarrow> Proxy.name q \<in> Proxy.name ` set (ProxyProvider.proxies pv)"
  by (auto simp: providerNodes_tagged tagged_name)


lemma inObject_proto: "inObject keys ''__proto__''"
  by (simp add: inObject_def)

text \<open>The names of the flattened node set, without the definitions of lines 132-147.\<close>

lemma allProxies_names:
  "Proxy.name ` set (allProxies pxs (sortedProviders pvs)) =
     Proxy.name ` snd ` set pxs \<union>
     {Proxy.name q | q pv.
        pv \<in> snd ` set pvs \<and> ProxyProvider.name pv \<noteq> ''default''
        \<and> vehicleType pv \<noteq> ''Compatible'' \<and> q \<in> set (ProxyProvider.proxies pv)
        \<and> \<not> inObject (map fst pxs) (Proxy.name q)}"
  (is "?L = ?A \<union> ?B")
proof -
  have "Proxy.name ` set (concat (map (providerNodes pxs) (sortedProviders pvs))) = ?B"
  proof (rule set_eqI)
    fix n
    show "(n \<in> Proxy.name ` set (concat (map (providerNodes pxs) (sortedProviders pvs)))) = (n \<in> ?B)"
    proof
      assume "n \<in> Proxy.name ` set (concat (map (providerNodes pxs) (sortedProviders pvs)))"
      then obtain pv q0 where pv: "pv \<in> set (sortedProviders pvs)"
        and q0: "q0 \<in> set (ProxyProvider.proxies pv)" "\<not> inObject (map fst pxs) (Proxy.name q0)"
        and n: "n = Proxy.name (tagged pv q0)"
        by (auto simp: providerNodes_tagged)
      from pv have "pv \<in> snd ` set pvs \<and> ProxyProvider.name pv \<noteq> ''default''
          \<and> vehicleType pv \<noteq> ''Compatible''"
        by (auto simp: sortedProviders_def)
      with q0 n show "n \<in> ?B" by (auto simp: tagged_name)
    next
      assume "n \<in> ?B"
      then obtain q pv where h: "pv \<in> snd ` set pvs" "ProxyProvider.name pv \<noteq> ''default''"
        "vehicleType pv \<noteq> ''Compatible''" "q \<in> set (ProxyProvider.proxies pv)"
        "\<not> inObject (map fst pxs) (Proxy.name q)" "n = Proxy.name q"
        by auto
      then have "pv \<in> set (sortedProviders pvs)" by (auto simp: sortedProviders_def)
      moreover from h have "tagged pv q \<in> set (providerNodes pxs pv)"
        by (simp add: providerNodes_tagged)
      ultimately have "tagged pv q \<in> set (concat (map (providerNodes pxs) (sortedProviders pvs)))"
        by auto
      then have "Proxy.name (tagged pv q)
          \<in> Proxy.name ` set (concat (map (providerNodes pxs) (sortedProviders pvs)))"
        by (rule imageI)
      with h(6) show "n \<in> Proxy.name ` set (concat (map (providerNodes pxs) (sortedProviders pvs)))"
        by (simp add: tagged_name)
    qed
  qed
  then show ?thesis by (simp add: allProxies_def image_Un)
qed

lemma setProxiesInfo_own:
  "k \<noteq> ''__proto__'' \<Longrightarrow>
   own (proxyNodeMap (setProxiesInfo sg ps s)) k
     = fold (\<lambda>p m. m(Proxy.name p \<mapsto> toProxyInfo p)) ps (own (proxyNodeMap s)) k"
  by (simp add: setProxiesInfo_fields own_fold_assign)

lemma setProxiesInfo_latency:
  "k \<noteq> ''__proto__'' \<Longrightarrow>
   latencyMap (setProxiesInfo sg ps s) k
     = fold (\<lambda>p m. m(Proxy.name p \<mapsto> getLatencyFromProxy sg p (urlForLatencyTest sg) True))
         ps (latencyMap s) k"
  by (simp add: setProxiesInfo_fields latency_fold_assign)

lemma fetchProxies_store:
  assumes "fetchProxyProvidersAPI eng = Inr pvs" "fetchProxiesAPI eng = Inr pxs"
    "map_of pxs ''GLOBAL'' = Some global"
  shows "snd (snd (fetchProxies sg eng s)) =
      setProxiesInfo sg (allProxies pxs (sortedProviders pvs))
        (s\<lparr> Store.proxies := sortedProxies pxs (sortIndex global),
            proxyProviders := sortedProviders pvs \<rparr>)"
  by (simp add: fetchProxies_success [OF assms])

text \<open>
  C7. When the provider fetch or the proxy fetch fails, the refresh fails with the
  error of a failed fetch and the store is what it was: none of the published signals
  changes.
\<close>

theorem fetchProxies_fails_whole:
  assumes "fetchProxyProvidersAPI eng = Inl e1 \<or> fetchProxiesAPI eng = Inl e2"
  shows "snd (snd (fetchProxies sg eng s)) = s
       \<and> (\<exists>e. fst (snd (fetchProxies sg eng s)) = Inl e
              \<and> (fetchProxyProvidersAPI eng = Inl e \<or> fetchProxiesAPI eng = Inl e))"
  using assms by (auto simp: fetchProxies_def split: sum.splits)

lemma fetchProxies_failure_keeps_store:
  "fst (snd (fetchProxies sg eng s)) = Inl e \<Longrightarrow> snd (snd (fetchProxies sg eng s)) = s"
  by (auto simp: fetchProxies_def split: sum.splits option.splits)

text \<open>
  C6, as the code has it. A successful refresh replaces the two lists, and merges into
  the two maps. With \<open>fetched\<close> the names of the flattened node set (the fetched
  proxies, and the nodes of the providers that are neither named \<^verbatim>\<open>default\<close> nor of
  vehicle type \<^verbatim>\<open>Compatible\<close> whose name is not \<^verbatim>\<open>in proxies\<close>), both maps get an own
  entry for every fetched name other than \<^verbatim>\<open>__proto__\<close>, and every other name keeps the
  entry, or the absence of one, it had before.
\<close>

theorem fetchProxies_merges_maps:
  assumes "fetchProxyProvidersAPI eng = Inr pvs" and "fetchProxiesAPI eng = Inr pxs"
    and "map_of pxs ''GLOBAL'' = Some global"
  shows "let s' = snd (snd (fetchProxies sg eng s));
             fetched = Proxy.name ` snd ` set pxs \<union>
               {Proxy.name q | q pv.
                  pv \<in> snd ` set pvs \<and> ProxyProvider.name pv \<noteq> ''default''
                  \<and> vehicleType pv \<noteq> ''Compatible'' \<and> q \<in> set (ProxyProvider.proxies pv)
                  \<and> \<not> inObject (map fst pxs) (Proxy.name q)}
         in Store.proxies s' = sortedProxies pxs (sortIndex global)
          \<and> proxyProviders s' = sortedProviders pvs
          \<and> dom (own (proxyNodeMap s')) = dom (own (proxyNodeMap s)) \<union> (fetched - {''__proto__''})
          \<and> dom (latencyMap s') = dom (latencyMap s) \<union> (fetched - {''__proto__''})
          \<and> (\<forall>k. k \<notin> fetched \<longrightarrow>
                own (proxyNodeMap s') k = own (proxyNodeMap s) k \<and> latencyMap s' k = latencyMap s k)"
  unfolding allProxies_names [symmetric] Let_def
  by (simp add: fetchProxies_success [OF assms] setProxiesInfo_fields own_fold_assign_dom
      latency_fold_assign_dom own_fold_assign_other latency_fold_assign_other)

text \<open>
  C5, as the code has it. A fetched group whose name is outside the ordering is
  published all the same, before every ranked entry, and reading the node index under
  its name finds a node record.
\<close>

theorem fetchProxies_keeps_unranked_groups:
  assumes "fetchProxyProvidersAPI eng = Inr pvs" and "fetchProxiesAPI eng = Inr pxs"
    and "map_of pxs ''GLOBAL'' = Some global"
    and "p \<in> set (map snd pxs)" and "hasMembers p"
    and "Proxy.name p \<notin> set (sortIndex global)"
  shows "let s' = snd (snd (fetchProxies sg eng s)); pub = Store.proxies s'
         in p \<in> set pub
          \<and> (\<forall>i<length pub. \<forall>j<length pub.
                pub ! i = p \<and> Proxy.name (pub ! j) \<in> set (sortIndex global) \<longrightarrow> i < j)
          \<and> (\<exists>node. indexGet (proxyNodeMap s') (Proxy.name p) = Info node)"
proof -
  let ?sidx = "sortIndex global"
  let ?rank = "\<lambda>p. indexOf ?sidx (Proxy.name p)"
  let ?groups = "filter hasMembers (map snd pxs)"
  let ?pub = "sort_key ?rank ?groups"
  let ?s' = "snd (snd (fetchProxies sg eng s))"
  have pub: "Store.proxies ?s' = ?pub"
    by (simp add: fetchProxies_success [OF assms(1-3)] setProxiesInfo_fields sortedProxies_sort_key)
  have mem: "p \<in> set ?pub" using assms(4,5) by simp
  have before: "\<forall>i<length ?pub. \<forall>j<length ?pub.
                ?pub ! i = p \<and> Proxy.name (?pub ! j) \<in> set ?sidx \<longrightarrow> i < j"
    using published_sorted_props(3) [of ?sidx ?groups] assms(6) by blast
  have "Proxy.name p \<in> Proxy.name ` set (allProxies pxs (sortedProviders pvs))"
    using assms(4) by (simp add: allProxies_def)
  from fold_assign_found [OF this]
  have idx: "\<exists>node. indexGet (proxyNodeMap ?s') (Proxy.name p) = Info node"
    by (simp add: fetchProxies_success [OF assms(1-3)] setProxiesInfo_fields)
  show ?thesis
    unfolding Let_def pub using mem before idx by blast
qed


text \<open>
  Among the copies of a name that pass the filter of line 141, the one of the last
  provider is the one both maps end up with.
\<close>

lemma fetchProxies_later_provider_wins:
  assumes "fetchProxyProvidersAPI eng = Inr pvs" and "fetchProxiesAPI eng = Inr pxs"
    and "map_of pxs ''GLOBAL'' = Some global"
    and order: "sortedProviders pvs = before @ pv2 # after"
    and first: "pv1 \<in> set before" "q1 \<in> set (ProxyProvider.proxies pv1)" "Proxy.name q1 = X"
    and second: "ProxyProvider.proxies pv2 = qs @ q2 # qs'" "Proxy.name q2 = X"
      "\<forall>r\<in>set qs'. Proxy.name r \<noteq> X"
    and later: "\<forall>pv\<in>set after. \<forall>r\<in>set (ProxyProvider.proxies pv). Proxy.name r \<noteq> X"
    and fresh: "\<not> inObject (map fst pxs) X"
  shows "let s' = snd (snd (fetchProxies sg eng s));
             copy1 = q1\<lparr> Proxy.provider := Some (ProxyProvider.name pv1) \<rparr>;
             copy2 = q2\<lparr> Proxy.provider := Some (ProxyProvider.name pv2) \<rparr>
         in copy1 \<in> set (allProxies pxs (sortedProviders pvs))
          \<and> copy2 \<in> set (allProxies pxs (sortedProviders pvs))
          \<and> own (proxyNodeMap s') X = Some (toProxyInfo copy2)
          \<and> ProxyInfo.provider (toProxyInfo copy2) = ProxyProvider.name pv2
          \<and> latencyMap s' X = Some (getLatencyFromProxy sg copy2 (urlForLatencyTest sg) True)"
proof -
  let ?s' = "snd (snd (fetchProxies sg eng s))"
  let ?keep = "\<lambda>proxy. \<not> inObject (map fst pxs) (Proxy.name proxy)"
  let ?pre = "map snd pxs @ concat (map (providerNodes pxs) before) @ map (tagged pv2) (filter ?keep qs)"
  let ?post = "map (tagged pv2) (filter ?keep qs') @ concat (map (providerNodes pxs) after)"
  have plain: "X \<noteq> ''__proto__''"
    using fresh inObject_proto by auto
  have keep1: "?keep q1" and keep2: "?keep q2"
    using fresh first(3) second(2) by simp_all
  have shape: "allProxies pxs (sortedProviders pvs) = ?pre @ tagged pv2 q2 # ?post"
    using keep2 by (simp add: allProxies_def order providerNodes_tagged second(1))
  have c1: "tagged pv1 q1 \<in> set (allProxies pxs (sortedProviders pvs))"
    using first(1,2) keep1 by (auto simp: allProxies_def order providerNodes_tagged)
  have c2: "tagged pv2 q2 \<in> set (allProxies pxs (sortedProviders pvs))"
    unfolding shape by simp
  have post: "\<forall>r\<in>set ?post. Proxy.name r \<noteq> Proxy.name (tagged pv2 q2)"
  proof
    fix r
    assume "r \<in> set ?post"
    then consider (a) "r \<in> set (map (tagged pv2) (filter ?keep qs'))"
      | (b) pv where "pv \<in> set after" "r \<in> set (providerNodes pxs pv)"
      by auto
    then show "Proxy.name r \<noteq> Proxy.name (tagged pv2 q2)"
    proof cases
      case a
      then show ?thesis using second(2,3) by (auto simp: tagged_name)
    next
      case b
      from providerNodes_names_sub [OF b(2)]
      obtain r0 where "r0 \<in> set (ProxyProvider.proxies pv)" "Proxy.name r = Proxy.name r0"
        by (auto simp: image_iff)
      with later b(1) have "Proxy.name r \<noteq> X" by metis
      then show ?thesis using second(2) by (simp add: tagged_name)
    qed
  qed
  have nX: "Proxy.name (tagged pv2 q2) = X"
    using second(2) by (simp add: tagged_name)
  have "own (proxyNodeMap ?s') X
      = fold (\<lambda>p m. m(Proxy.name p \<mapsto> toProxyInfo p)) (allProxies pxs (sortedProviders pvs))
          (own (proxyNodeMap s)) X"
    unfolding fetchProxies_store [OF assms(1-3)] by (simp add: setProxiesInfo_own [OF plain])
  also have "\<dots> = Some (toProxyInfo (tagged pv2 q2))"
    unfolding shape
    using fold_upd_last [OF post, of toProxyInfo ?pre "own (proxyNodeMap s)"] nX
    by simp
  finally have nm: "own (proxyNodeMap ?s') X = Some (toProxyInfo (tagged pv2 q2))" .
  have "latencyMap ?s' X
      = fold (\<lambda>p m. m(Proxy.name p \<mapsto> getLatencyFromProxy sg p (urlForLatencyTest sg) True))
          (allProxies pxs (sortedProviders pvs)) (latencyMap s) X"
    unfolding fetchProxies_store [OF assms(1-3)] by (simp add: setProxiesInfo_latency [OF plain])
  also have "\<dots> = Some (getLatencyFromProxy sg (tagged pv2 q2) (urlForLatencyTest sg) True)"
    unfolding shape
    using fold_upd_last [OF post, of "\<lambda>q. getLatencyFromProxy sg q (urlForLatencyTest sg) True"
        ?pre "latencyMap s"] nX
    by simp
  finally have lm: "latencyMap ?s' X
      = Some (getLatencyFromProxy sg (tagged pv2 q2) (urlForLatencyTest sg) True)" .
  have pvn: "ProxyInfo.provider (toProxyInfo (tagged pv2 q2)) = ProxyProvider.name pv2"
    by (simp add: toProxyInfo_def tagged_def)
  show ?thesis
    unfolding Let_def using c1 c2 nm pvn lm by (simp add: tagged_def)
qed


section \<open>The properties on the concrete snapshots\<close>

lemma mkProxy_sel:
  "Proxy.name (mkProxy nm members ptr delays) = nm"
  "all (mkProxy nm members ptr delays) = members"
  "now (mkProxy nm members ptr delays) = ptr"
  "extra (mkProxy nm members ptr delays) = None"
  "Proxy.provider (mkProxy nm members ptr delays) = None"
  "history (mkProxy nm members ptr delays) = Some (map (\<lambda>d. \<lparr> time = ''t'', delay = d \<rparr>) delays)"
  by (simp_all add: mkProxy_def)

lemma mkProxy_latency:
  "getLatencyFromProxy sg (tagged pv (mkProxy nm members ptr [d])) url True = d"
  "getLatencyFromProxy sg (mkProxy nm members ptr [d]) url True = d"
  "getLatencyFromProxy sg (mkProxy nm members ptr []) url True = NOT_CONNECTED sg"
  by (simp_all add: getLatencyFromProxy_def extra_at_def at_last_def mkProxy_def tagged_def)

lemma orderEngine_fetch:
  "fetchProxyProvidersAPI orderEngine = Inr []"
  "fetchProxiesAPI orderEngine = Inr orderProxies"
  "map_of orderProxies ''GLOBAL'' = Some globalGroup"
  by (simp_all add: orderEngine_def orderProxies_def)

text \<open>The list the ordering snapshot publishes.\<close>

lemma orderEngine_published:
  "Store.proxies (snd (snd (fetchProxies sampleSignals orderEngine emptyStore))) =
     [zGroup,
      mkProxy ''Y'' (Some [''n1'']) (Some ''n1'') [],
      mkProxy ''A'' (Some [''n1'']) (Some ''n1'') [],
      mkProxy ''B'' (Some [''n1'']) (Some ''n1'') [],
      globalGroup]"
  by (simp add: fetchProxies_success [OF orderEngine_fetch] setProxiesInfo_fields
      sortedProxies_def array_sort_def sortIndex_def hasMembers_def orderProxies_def
      globalGroup_def zGroup_def mkProxy_sel)

lemma selfListEngine_fetch:
  "fetchProxyProvidersAPI selfListEngine = Inr []"
  "fetchProxiesAPI selfListEngine = Inr selfListProxies"
  "map_of selfListProxies ''GLOBAL'' =
     Some (mkProxy ''GLOBAL'' (Some [''B'', ''GLOBAL'', ''A'']) (Some ''B'') [])"
  by (simp_all add: selfListEngine_def selfListProxies_def)

text \<open>
  \<^verbatim>\<open>GLOBAL\<close> lists itself between \<^verbatim>\<open>B\<close> and \<^verbatim>\<open>A\<close>: it is published between them, and
  the list ends with \<^verbatim>\<open>A\<close>.
\<close>

theorem global_not_last_counterexample:
  "fst (snd (fetchProxies sampleSignals selfListEngine emptyStore)) = Inr ()
   \<and> Store.proxies (snd (snd (fetchProxies sampleSignals selfListEngine emptyStore))) =
       [mkProxy ''B'' (Some [''n1'']) (Some ''n1'') [],
        mkProxy ''GLOBAL'' (Some [''B'', ''GLOBAL'', ''A'']) (Some ''B'') [],
        mkProxy ''A'' (Some [''n1'']) (Some ''n1'') []]
   \<and> Proxy.name (last (Store.proxies (snd (snd (fetchProxies sampleSignals selfListEngine emptyStore)))))
       = ''A''"
proof -
  have pub: "Store.proxies (snd (snd (fetchProxies sampleSignals selfListEngine emptyStore))) =
       [mkProxy ''B'' (Some [''n1'']) (Some ''n1'') [],
        mkProxy ''GLOBAL'' (Some [''B'', ''GLOBAL'', ''A'']) (Some ''B'') [],
        mkProxy ''A'' (Some [''n1'']) (Some ''n1'') []]"
    by (simp add: fetchProxies_success [OF selfListEngine_fetch] setProxiesInfo_fields
        sortedProxies_def array_sort_def sortIndex_def hasMembers_def selfListProxies_def
        mkProxy_sel)
  show ?thesis
    unfolding pub by (simp add: fetchProxies_success [OF selfListEngine_fetch] mkProxy_sel)
qed

text \<open>C4 as the code has it, on the ordering snapshot.\<close>

theorem fetchProxies_order_witness:
  "fetchProxyProvidersAPI orderEngine = Inr []
   \<and> fetchProxiesAPI orderEngine = Inr orderProxies
   \<and> map_of orderProxies ''GLOBAL'' = Some globalGroup
   \<and> Store.proxies (snd (snd (fetchProxies sampleSignals orderEngine emptyStore))) =
       [zGroup,
        mkProxy ''Y'' (Some [''n1'']) (Some ''n1'') [],
        mkProxy ''A'' (Some [''n1'']) (Some ''n1'') [],
        mkProxy ''B'' (Some [''n1'']) (Some ''n1'') [],
        globalGroup]
   \<and> (let pub = Store.proxies (snd (snd (fetchProxies sampleSignals orderEngine emptyStore)));
             members = (case all globalGroup of None \<Rightarrow> [] | Some ms \<Rightarrow> ms);
             sidx = members @ [''GLOBAL''];
             rank = (\<lambda>p. indexOf sidx (Proxy.name p));
             groups = filter (\<lambda>p. case all p of None \<Rightarrow> False | Some ms \<Rightarrow> ms \<noteq> [])
                        (map snd orderProxies)
         in fst (snd (fetchProxies sampleSignals orderEngine emptyStore)) = Inr ()
          \<and> mset pub = mset groups
          \<and> sorted (map rank pub)
          \<and> (\<forall>p\<in>set pub. Proxy.name p \<in> set sidx \<longrightarrow>
                0 \<le> rank p \<and> sidx ! nat (rank p) = Proxy.name p
                \<and> (\<forall>j<nat (rank p). sidx ! j \<noteq> Proxy.name p))
          \<and> (\<forall>p\<in>set pub. Proxy.name p \<notin> set sidx \<longrightarrow> rank p = -1)
          \<and> (\<forall>i<length pub. \<forall>j<length pub.
                Proxy.name (pub ! i) \<notin> set sidx \<and> Proxy.name (pub ! j) \<in> set sidx \<longrightarrow> i < j)
          \<and> filter (\<lambda>p. Proxy.name p \<notin> set sidx) pub
              = filter (\<lambda>p. Proxy.name p \<notin> set sidx) groups
          \<and> (''GLOBAL'' \<notin> set members \<longrightarrow>
                (\<forall>i<length pub. \<forall>j<length pub.
                   Proxy.name (pub ! i) \<noteq> ''GLOBAL'' \<and> Proxy.name (pub ! j) = ''GLOBAL'' \<longrightarrow> i < j))
          \<and> (''GLOBAL'' \<notin> set members \<and> members \<noteq> [] \<and> Proxy.name globalGroup = ''GLOBAL'' \<longrightarrow>
                pub \<noteq> [] \<and> Proxy.name (last pub) = ''GLOBAL''
                \<and> ((\<forall>p\<in>set (map snd orderProxies). Proxy.name p = ''GLOBAL'' \<longrightarrow> p = globalGroup) \<longrightarrow>
                     last pub = globalGroup)))"
  using orderEngine_fetch orderEngine_published
    fetchProxies_order [OF orderEngine_fetch, of sampleSignals emptyStore]
  by (intro conjI)

text \<open>
  The group \<^verbatim>\<open>Z\<close> has members and is outside the ordering \<^verbatim>\<open>[A, B, GLOBAL]\<close>; it is
  published nevertheless.
\<close>

theorem groups_outside_ordering_counterexample:
  "fst (snd (fetchProxies sampleSignals orderEngine emptyStore)) = Inr ()
   \<and> (''Z'', zGroup) \<in> set orderProxies
   \<and> hasMembers zGroup
   \<and> Proxy.name zGroup \<notin> set (sortIndex globalGroup)
   \<and> zGroup \<in> set (Store.proxies (snd (snd (fetchProxies sampleSignals orderEngine emptyStore))))"
  by (simp add: orderEngine_published)
     (simp add: fetchProxies_success [OF orderEngine_fetch] orderProxies_def hasMembers_def
        zGroup_def globalGroup_def sortIndex_def mkProxy_sel)

text \<open>C5 as the code has it, at the group \<^verbatim>\<open>Z\<close>.\<close>

theorem fetchProxies_keeps_unranked_groups_witness:
  "fetchProxyProvidersAPI orderEngine = Inr []
   \<and> fetchProxiesAPI orderEngine = Inr orderProxies
   \<and> map_of orderProxies ''GLOBAL'' = Some globalGroup
   \<and> zGroup \<in> set (map snd orderProxies) \<and> hasMembers zGroup
   \<and> Proxy.name zGroup \<notin> set (sortIndex globalGroup)
   \<and> (let s' = snd (snd (fetchProxies sampleSignals orderEngine emptyStore)); pub = Store.proxies s'
         in zGroup \<in> set pub
          \<and> (\<forall>i<length pub. \<forall>j<length pub.
                pub ! i = zGroup \<and> Proxy.name (pub ! j) \<in> set (sortIndex globalGroup) \<longrightarrow> i < j)
          \<and> (\<exists>node. indexGet (proxyNodeMap s') (Proxy.name zGroup) = Info node))"
proof -
  have h: "zGroup \<in> set (map snd orderProxies)" "hasMembers zGroup"
    "Proxy.name zGroup \<notin> set (sortIndex globalGroup)"
    by (simp_all add: orderProxies_def hasMembers_def zGroup_def globalGroup_def sortIndex_def mkProxy_sel)
  show ?thesis
    using orderEngine_fetch h
      fetchProxies_keeps_unranked_groups [OF orderEngine_fetch h, of sampleSignals emptyStore]
    by (intro conjI)
qed

lemma orderEngine_names:
  "Proxy.name ` set (allProxies orderProxies (sortedProviders [])) =
     {''GLOBAL'', ''Z'', ''B'', ''Y'', ''A'', ''n1''}"
  by (simp add: allProxies_def sortedProviders_def orderProxies_def globalGroup_def zGroup_def mkProxy_sel)

text \<open>
  The name \<^verbatim>\<open>old\<close> is in the previous maps and in nothing the refresh fetched; its
  entries are still there afterwards.
\<close>

theorem refresh_keeps_old_entries_counterexample:
  "fst (snd (fetchProxies sampleSignals orderEngine prevStore)) = Inr ()
   \<and> own (proxyNodeMap prevStore) ''old'' = Some (nodeInfo ''old'' None)
   \<and> ''old'' \<notin> Proxy.name ` set (allProxies orderProxies (sortedProviders []))
   \<and> own (proxyNodeMap (snd (snd (fetchProxies sampleSignals orderEngine prevStore)))) ''old''
       = Some (nodeInfo ''old'' None)
   \<and> latencyMap (snd (snd (fetchProxies sampleSignals orderEngine prevStore))) ''old'' = Some 120"
proof -
  have n: "''old'' \<notin> Proxy.name ` set (allProxies orderProxies (sortedProviders []))"
    unfolding orderEngine_names by simp
  show ?thesis
    using n
    by (simp add: fetchProxies_success [OF orderEngine_fetch] setProxiesInfo_fields
          own_fold_assign_other latency_fold_assign_other)
       (simp add: prevStore_def)
qed

text \<open>C6 as the code has it, on the same refresh.\<close>

theorem fetchProxies_merges_maps_witness:
  "fetchProxyProvidersAPI orderEngine = Inr []
   \<and> fetchProxiesAPI orderEngine = Inr orderProxies
   \<and> map_of orderProxies ''GLOBAL'' = Some globalGroup
   \<and> (let s' = snd (snd (fetchProxies sampleSignals orderEngine prevStore));
             fetched = Proxy.name ` snd ` set orderProxies \<union>
               {Proxy.name q | q pv.
                  pv \<in> snd ` set ([] :: (string \<times> ProxyProvider) list)
                  \<and> ProxyProvider.name pv \<noteq> ''default''
                  \<and> vehicleType pv \<noteq> ''Compatible'' \<and> q \<in> set (ProxyProvider.proxies pv)
                  \<and> \<not> inObject (map fst orderProxies) (Proxy.name q)}
         in Store.proxies s' = sortedProxies orderProxies (sortIndex globalGroup)
          \<and> proxyProviders s' = sortedProviders []
          \<and> dom (own (proxyNodeMap s')) = dom (own (proxyNodeMap prevStore)) \<union> (fetched - {''__proto__''})
          \<and> dom (latencyMap s') = dom (latencyMap prevStore) \<union> (fetched - {''__proto__''})
          \<and> (\<forall>k. k \<notin> fetched \<longrightarrow>
                own (proxyNodeMap s') k = own (proxyNodeMap prevStore) k
                \<and> latencyMap s' k = latencyMap prevStore k))"
  using orderEngine_fetch fetchProxies_merges_maps [OF orderEngine_fetch, of sampleSignals prevStore]
  by (intro conjI)

text \<open>C7 on an engine whose provider fetch is rejected.\<close>

theorem fetchProxies_fails_whole_witness:
  "(fetchProxyProvidersAPI failingEngine = Inl (RemoteError ''503'')
      \<or> fetchProxiesAPI failingEngine = Inl (RemoteError ''503''))
   \<and> snd (snd (fetchProxies sampleSignals failingEngine prevStore)) = prevStore
   \<and> (\<exists>e. fst (snd (fetchProxies sampleSignals failingEngine prevStore)) = Inl e
          \<and> (fetchProxyProvidersAPI failingEngine = Inl e \<or> fetchProxiesAPI failingEngine = Inl e))"
proof -
  have h: "fetchProxyProvidersAPI failingEngine = Inl (RemoteError ''503'')
      \<or> fetchProxiesAPI failingEngine = Inl (RemoteError ''503'')"
    by (simp add: failingEngine_def)
  show ?thesis
    by (rule conjI [OF h fetchProxies_fails_whole [OF h, of sampleSignals prevStore]])
qed

lemma mergeEngine_fetch:
  "fetchProxyProvidersAPI mergeEngine = Inr mergeProviders"
  "fetchProxiesAPI mergeEngine = Inr mergeProxies"
  "map_of mergeProxies ''GLOBAL'' = Some (mkProxy ''GLOBAL'' (Some [''X'']) (Some ''X'') [])"
  by (simp_all add: mergeEngine_def mergeProxies_def)

lemma mergeProviders_sorted: "sortedProviders mergeProviders = [providerP1] @ providerP2 # []"
  by (simp add: sortedProviders_def mergeProviders_def providerDefault_def providerP1_def providerP2_def)






lemma builtinEngine_fetch:
  "fetchProxyProvidersAPI builtinEngine = Inr builtinProviders"
  "fetchProxiesAPI builtinEngine = Inr mergeProxies"
  "map_of mergeProxies ''GLOBAL'' = Some (mkProxy ''GLOBAL'' (Some [''X'']) (Some ''X'') [])"
  by (simp_all add: builtinEngine_def mergeProxies_def)

lemma builtinEngine_all:
  "allProxies mergeProxies (sortedProviders builtinProviders) = map snd mergeProxies"
  by (simp add: allProxies_def sortedProviders_def builtinProviders_def providerNodes_tagged
      providerQ1_def providerQ2_def inObject_def objectPrototypeMethods_def mkProxy_sel)

text \<open>
  C10. Two providers supply a node named \<^verbatim>\<open>toString\<close>, which is no key of the fetched
  proxies, so both copies should pass the filter and the later one be published. The
  test of line 141 is \<^verbatim>\<open>in\<close>, true of every name a plain object inherits: both copies
  are dropped, the flattened list holds the fetched proxies only, and neither map
  gets an entry under that name.
\<close>

theorem provider_copies_dropped:
  "fst (snd (fetchProxies sampleSignals builtinEngine emptyStore)) = Inr ()
   \<and> sortedProviders builtinProviders = [providerQ1, providerQ2]
   \<and> mkProxy ''toString'' None None [20] \<in> set (ProxyProvider.proxies providerQ1)
   \<and> mkProxy ''toString'' None None [30] \<in> set (ProxyProvider.proxies providerQ2)
   \<and> ''toString'' \<notin> set (map fst mergeProxies)
   \<and> allProxies mergeProxies (sortedProviders builtinProviders) = map snd mergeProxies
   \<and> own (proxyNodeMap (snd (snd (fetchProxies sampleSignals builtinEngine emptyStore)))) ''toString''
       = None
   \<and> latencyMap (snd (snd (fetchProxies sampleSignals builtinEngine emptyStore))) ''toString'' = None"
proof -
  have absent: "''toString'' \<notin> Proxy.name ` set (allProxies mergeProxies (sortedProviders builtinProviders))"
    unfolding builtinEngine_all by (simp add: mergeProxies_def topX_def mkProxy_sel)
  have own: "own (proxyNodeMap (snd (snd (fetchProxies sampleSignals builtinEngine emptyStore)))) ''toString''
       = None"
    unfolding fetchProxies_store [OF builtinEngine_fetch]
    using absent by (simp add: setProxiesInfo_fields own_fold_assign_other emptyStore_def emptyIndex_def)
  have lat: "latencyMap (snd (snd (fetchProxies sampleSignals builtinEngine emptyStore))) ''toString'' = None"
    unfolding fetchProxies_store [OF builtinEngine_fetch]
    using absent by (simp add: setProxiesInfo_fields latency_fold_assign_other emptyStore_def)
  have rest: "fst (snd (fetchProxies sampleSignals builtinEngine emptyStore)) = Inr ()"
    "sortedProviders builtinProviders = [providerQ1, providerQ2]"
    "mkProxy ''toString'' None None [20] \<in> set (ProxyProvider.proxies providerQ1)"
    "mkProxy ''toString'' None None [30] \<in> set (ProxyProvider.proxies providerQ2)"
    "''toString'' \<notin> set (map fst mergeProxies)"
    by (simp_all add: fetchProxies_success [OF builtinEngine_fetch] sortedProviders_def
        builtinProviders_def providerQ1_def providerQ2_def mergeProxies_def)
  show ?thesis
    using rest builtinEngine_all own lat by (intro conjI)
qed

text \<open>The copies of \<^verbatim>\<open>Y\<close> on the merge snapshot: the one of \<^verbatim>\<open>P2\<close> is published.\<close>

lemma mergeEngine_later_provider:
  "own (proxyNodeMap (snd (snd (fetchProxies sampleSignals mergeEngine emptyStore)))) ''Y''
     = Some (toProxyInfo ((mkProxy ''Y'' None None [30])\<lparr> Proxy.provider := Some ''P2'' \<rparr>))
   \<and> latencyMap (snd (snd (fetchProxies sampleSignals mergeEngine emptyStore))) ''Y'' = Some 30"
proof -
  have h1: "providerP1 \<in> set [providerP1]"
    "mkProxy ''Y'' None None [20] \<in> set (ProxyProvider.proxies providerP1)"
    "Proxy.name (mkProxy ''Y'' None None [20]) = ''Y''"
    by (simp_all add: providerP1_def mkProxy_sel)
  have h2: "ProxyProvider.proxies providerP2 = [] @ mkProxy ''Y'' None None [30] # []"
    "Proxy.name (mkProxy ''Y'' None None [30]) = ''Y''"
    "\<forall>r\<in>set []. Proxy.name r \<noteq> ''Y''"
    by (simp_all add: providerP2_def mkProxy_sel)
  have h3: "\<forall>pv\<in>set []. \<forall>r\<in>set (ProxyProvider.proxies pv). Proxy.name r \<noteq> ''Y''"
    by simp
  have h4: "\<not> inObject (map fst mergeProxies) ''Y''"
    by (simp add: mergeProxies_def inObject_def objectPrototypeMethods_def)
  have p2: "ProxyProvider.name providerP2 = ''P2''" by (simp add: providerP2_def)
  show ?thesis
    using fetchProxies_later_provider_wins [OF mergeEngine_fetch mergeProviders_sorted h1 h2 h3 h4,
        of sampleSignals emptyStore]
      mkProxy_latency(1) [of sampleSignals providerP2 "''Y''" None None 30]
    by (simp add: Let_def p2 tagged_def)
qed

text \<open>
  A fetched node named \<^verbatim>\<open>__proto__\<close>: its record becomes the prototype of the index and
  neither map gets an own property of that name.
\<close>

lemma protoEngine_fetch:
  "fetchProxyProvidersAPI protoEngine = Inr []"
  "fetchProxiesAPI protoEngine = Inr protoProxies"
  "map_of protoProxies ''GLOBAL'' =
     Some (mkProxy ''GLOBAL'' (Some [''__proto__'']) (Some ''__proto__'') [])"
  by (simp_all add: protoEngine_def protoProxies_def)

lemma protoEngine_refresh:
  "own (proxyNodeMap (snd (snd (fetchProxies sampleSignals protoEngine emptyStore)))) ''__proto__'' = None
   \<and> proto (proxyNodeMap (snd (snd (fetchProxies sampleSignals protoEngine emptyStore))))
       = Some (toProxyInfo (mkProxy ''__proto__'' None None [35]))
   \<and> latencyMap (snd (snd (fetchProxies sampleSignals protoEngine emptyStore))) ''__proto__'' = None"
  unfolding fetchProxies_store [OF protoEngine_fetch]
  by (simp add: setProxiesInfo_fields allProxies_def sortedProviders_def protoProxies_def
      mkProxy_sel assignIndex_def assignLatency_def emptyStore_def emptyIndex_def)


end
